theory Spec2Isabelle
  imports Complex_Main
begin

section \<open>Gates, tapes and the simulated register\<close>

text \<open>
  The notebooks build circuits by calling gate constructors of the simulation library;
  every call appends one operation to the tape of the enclosing quantum node, which the
  device then executes starting from the all-zero register. A circuit-construction
  function of the notebooks is therefore modelled by the list of gates it emits. The
  constructors keep the arguments of the source calls: \<open>wires\<close> lists for the two-wire
  gates, and the three arguments \<open>control_wires\<close>, \<open>wires\<close>, \<open>control_values\<close> of the
  multi-controlled X gate (\<open>None\<close> where the call leaves the argument out).
\<close>

datatype 'w gate =
    Hadamard 'w
  | PauliX 'w
  | PauliZ 'w
  | CZ "'w list"
  | CNOT "'w list"
  | MultiControlledX "'w list option" "'w list" "string option"

text \<open>
  A computational basis state gives one bit to every wire label; a register state gives
  one complex amplitude to every basis state. Gates only read and change the bits of the
  wires they are applied to.
\<close>

type_synonym 'w basis = "'w \<Rightarrow> bool"
type_synonym 'w state = "'w basis \<Rightarrow> complex"

text \<open>The basis state of a device whose wires \<open>dev\<close> hold the bits \<open>bs\<close>.\<close>

definition ket :: "'w list \<Rightarrow> bool list \<Rightarrow> 'w state" where
  "ket dev bs = (\<lambda>y. if map y dev = bs then 1 else 0)"

definition ket0 :: "'w list \<Rightarrow> 'w state" where
  "ket0 dev = ket dev (replicate (length dev) False)"

text \<open>
  The multi-controlled X gate: with \<open>wires\<close> alone the last wire is the target and the
  others control it; with \<open>control_wires\<close> given, \<open>wires\<close> is the single target. The
  control values default to all ones; a string gives one character per control wire.
\<close>

definition mcx_controls :: "'w list option \<Rightarrow> 'w list \<Rightarrow> 'w list" where
  "mcx_controls cw ws = (case cw of None \<Rightarrow> butlast ws | Some cs \<Rightarrow> cs)"

definition mcx_values :: "string option \<Rightarrow> 'w list \<Rightarrow> bool list" where
  "mcx_values cv cs =
     (case cv of None \<Rightarrow> replicate (length cs) True | Some s \<Rightarrow> map (\<lambda>c. c = CHR ''1'') s)"

definition fires :: "'w list \<Rightarrow> bool list \<Rightarrow> 'w basis \<Rightarrow> bool" where
  "fires cs vs y = (map y cs = vs)"

definition flip :: "'w \<Rightarrow> 'w basis \<Rightarrow> 'w basis" where
  "flip w y = y(w := \<not> y w)"

fun apply_gate :: "'w gate \<Rightarrow> 'w state \<Rightarrow> 'w state" where
  "apply_gate (Hadamard w) \<psi> =
     (\<lambda>y. (\<psi> (y(w := False)) + (if y w then - 1 else 1) * \<psi> (y(w := True)))
            / complex_of_real (sqrt 2))"
| "apply_gate (PauliX w) \<psi> = (\<lambda>y. \<psi> (flip w y))"
| "apply_gate (PauliZ w) \<psi> = (\<lambda>y. if y w then - \<psi> y else \<psi> y)"
| "apply_gate (CZ ws) \<psi> =
     (case ws of [a, b] \<Rightarrow> (\<lambda>y. if y a \<and> y b then - \<psi> y else \<psi> y) | _ \<Rightarrow> \<psi>)"
| "apply_gate (CNOT ws) \<psi> =
     (case ws of [c, t] \<Rightarrow> (\<lambda>y. if y c then \<psi> (flip t y) else \<psi> y) | _ \<Rightarrow> \<psi>)"
| "apply_gate (MultiControlledX cw ws cv) \<psi> =
     (let cs = mcx_controls cw ws in
      if ws = [] then \<psi>
      else (\<lambda>y. if fires cs (mcx_values cv cs) y then \<psi> (flip (last ws) y) else \<psi> y))"

fun run :: "'w gate list \<Rightarrow> 'w state \<Rightarrow> 'w state" where
  "run [] \<psi> = \<psi>"
| "run (g # gs) \<psi> = run gs (apply_gate g \<psi>)"

text \<open>
  What the device can execute: every wire of a gate is a wire of the device, the wires of
  one gate are pairwise different, the two-wire gates have two wires, and the
  multi-controlled X gate has at least one control wire, a target that is none of them,
  and one control value, \<open>0\<close> or \<open>1\<close>, per control wire.
\<close>

fun accepts :: "'w list \<Rightarrow> 'w gate \<Rightarrow> bool" where
  "accepts dev (Hadamard w) = (w \<in> set dev)"
| "accepts dev (PauliX w) = (w \<in> set dev)"
| "accepts dev (PauliZ w) = (w \<in> set dev)"
| "accepts dev (CZ ws) = (length ws = 2 \<and> distinct ws \<and> list_all (\<lambda>w. w \<in> set dev) ws)"
| "accepts dev (CNOT ws) = (length ws = 2 \<and> distinct ws \<and> list_all (\<lambda>w. w \<in> set dev) ws)"
| "accepts dev (MultiControlledX cw ws cv) =
     (let cs = mcx_controls cw ws in
      (case cw of None \<Rightarrow> 2 \<le> length ws | Some _ \<Rightarrow> length ws = 1)
      \<and> cs \<noteq> []
      \<and> distinct (cs @ [last ws])
      \<and> list_all (\<lambda>w. w \<in> set dev) (cs @ [last ws])
      \<and> (case cv of None \<Rightarrow> True
          | Some s \<Rightarrow> length s = length cs \<and> list_all (\<lambda>c. c = CHR ''0'' \<or> c = CHR ''1'') s))"

text \<open>
  The failures of the notebooks: Python's \<open>IndexError\<close> and \<open>TypeError\<close>, and every
  exception that the simulation library raises (\<open>WireError\<close>, \<open>ValueError\<close>).
\<close>

datatype error = IndexError | TypeError | LibraryError

text \<open>
  The library checks some arguments already when a gate is constructed, that is inside
  the notebook function that calls the constructor: the wires of \<open>qml.CNOT\<close> must be two
  different wires; \<open>qml.MultiControlledX\<close> with \<open>wires\<close> alone needs at least two wires,
  with \<open>control_wires\<close> given it needs exactly one target wire, and its control wires
  must be pairwise different. A target that is also a control wire, or an empty list of
  control wires, passes the constructor and fails only when the tape is executed.
\<close>

definition new_CNOT :: "'w list \<Rightarrow> error + 'w gate" where
  "new_CNOT ws = (if length ws = 2 \<and> distinct ws then Inr (CNOT ws) else Inl LibraryError)"

definition new_MultiControlledX ::
  "'w list option \<Rightarrow> 'w list \<Rightarrow> string option \<Rightarrow> error + 'w gate" where
  "new_MultiControlledX cw ws cv =
     (case cw of
        None \<Rightarrow>
          if 2 \<le> length ws \<and> distinct (butlast ws) then Inr (MultiControlledX None ws cv)
          else Inl LibraryError
      | Some cs \<Rightarrow>
          if length ws = 1 \<and> distinct cs then Inr (MultiControlledX (Some cs) ws cv)
          else Inl LibraryError)"

definition and_then :: "error + 'a \<Rightarrow> ('a \<Rightarrow> error + 'b) \<Rightarrow> error + 'b" where
  "and_then m f = (case m of Inl e \<Rightarrow> Inl e | Inr x \<Rightarrow> f x)"

text \<open>
  Executing a tape on a device: the library's own failure on a tape it does not accept,
  otherwise the state the gates produce from the all-zero register.
\<close>

definition execute :: "'w list \<Rightarrow> 'w gate list \<Rightarrow> error + 'w state" where
  "execute dev tape =
     (if list_all (accepts dev) tape then Inr (run tape (ket0 dev)) else Inl LibraryError)"

text \<open>
  Sampling: \<open>sum_over ws f y\<close> adds \<open>f\<close> over all the ways of giving bits to the wires
  \<open>ws\<close> (the other bits of \<open>y\<close> stay), and \<open>prob dev \<psi> ws bs\<close> is the probability that a
  sample of the wires \<open>ws\<close> reads the bits \<open>bs\<close>.
\<close>

fun sum_over :: "'w list \<Rightarrow> ('w basis \<Rightarrow> 'a::comm_monoid_add) \<Rightarrow> 'w basis \<Rightarrow> 'a" where
  "sum_over [] f y = f y"
| "sum_over (w # ws) f y = sum_over ws f (y(w := False)) + sum_over ws f (y(w := True))"

definition prob :: "'w list \<Rightarrow> 'w state \<Rightarrow> 'w list \<Rightarrow> bool list \<Rightarrow> real" where
  "prob dev \<psi> ws bs =
     sum_over dev (\<lambda>y. if map y ws = bs then (cmod (\<psi> y))\<^sup>2 else 0) (\<lambda>_. False)"

text \<open>Python's \<open>range(n)\<close>, and a \<open>for\<close> loop over it whose body emits gates.\<close>

definition range_py :: "int \<Rightarrow> int list" where
  "range_py n = [0..n - 1]"

fun for_each :: "'a list \<Rightarrow> ('a \<Rightarrow> 'w gate list) \<Rightarrow> 'w gate list" where
  "for_each [] body = []"
| "for_each (x # xs) body = body x @ for_each xs body"

text \<open>The same loop with a body that may raise: the first failure ends the loop.\<close>

fun for_each_raising ::
  "'a list \<Rightarrow> ('a \<Rightarrow> error + 'w gate list) \<Rightarrow> error + 'w gate list" where
  "for_each_raising [] body = Inr []"
| "for_each_raising (x # xs) body =
     and_then (body x) (\<lambda>gs.
     and_then (for_each_raising xs body) (\<lambda>gs'.
       Inr (gs @ gs')))"

section \<open>Grover\_Introduction: the two-qubit example\<close>

text \<open>\<open>qml.device("default.qubit", wires=2, ...)\<close>: the wires are labelled 0 and 1.\<close>

definition device_wires :: "int \<Rightarrow> int list" where
  "device_wires n = range_py n"

text \<open>Solution 1.1, Solution 1.3 and Solution 1.5.\<close>

definition state_preparation_gates2 :: "int gate list" where
  "state_preparation_gates2 = for_each (range_py 2) (\<lambda>i. [Hadamard i])"

definition oracle_gates2 :: "int gate list" where
  "oracle_gates2 = [CZ [0, 1]]"

definition diffusion_gates2 :: "int gate list" where
  "diffusion_gates2 =
     for_each (range_py 2) (\<lambda>i. [Hadamard i, PauliZ i])
     @ [CZ [0, 1]]
     @ for_each (range_py 2) (\<lambda>i. [Hadamard i])"

text \<open>The quantum node of the two-qubit example, on the single-shot device with two wires.\<close>

definition grover_circuit2 :: "int gate list" where
  "grover_circuit2 = state_preparation_gates2 @ oracle_gates2 @ diffusion_gates2"

section \<open>Grover\_Introduction: the higher dimensional example\<close>

text \<open>
  The module-level variables of the notebook that its later cells read, and the device
  that the quantum node \<open>grover_circuit\<close> was bound to when its cell was run. The cell
  \<open>n_qubits = 4\<close> assigns the number of qubits and makes the single-shot device with
  that many wires.
\<close>

record globals =
  n_qubits :: int
  single_shot_device :: "int list"
  grover_iterations :: int
  grover_circuit_device :: "int list"

definition cell_n_qubits :: "globals \<Rightarrow> globals" where
  "cell_n_qubits g = g\<lparr>n_qubits := 4, single_shot_device := device_wires 4\<rparr>"

text \<open>
  The cell that prints the number of Grover iterations computes it from \<open>n_qubits\<close>,
  once, when it is run: \<open>int(np.ceil(np.sqrt(2**n_qubits)*np.pi/4.0 - 0.5))\<close>. The
  power \<open>2**n_qubits\<close> is a Python integer (a float when \<open>n_qubits\<close> is negative);
  from \<open>n_qubits = 64\<close> on it does not fit the 64-bit integers of NumPy and \<open>np.sqrt\<close>
  raises \<open>TypeError\<close>. Below 64 the double-precision result is the integer that the
  formula has over the real numbers (the two part only from \<open>n_qubits = 98\<close> on, where
  the cell has already failed), so the formula is written over the reals.
\<close>

definition cell_grover_iterations :: "globals \<Rightarrow> error + globals" where
  "cell_grover_iterations g =
     (if 64 \<le> n_qubits g then Inl TypeError
      else Inr (g\<lparr>grover_iterations :=
                  \<lceil>sqrt (2 powr real_of_int (n_qubits g)) * pi / 4.0 - 0.5\<rceil>\<rparr>))"

text \<open>
  Solution 2.1, Solution 2.2 and Solution 2.3. The functions take no argument; the
  number of qubits is the module-level variable.
\<close>

definition state_preparation_gates :: "globals \<Rightarrow> int gate list" where
  "state_preparation_gates g = for_each (range_py (n_qubits g)) (\<lambda>i. [Hadamard i])"

definition oracle_gates :: "globals \<Rightarrow> int gate list" where
  "oracle_gates g =
     [Hadamard (n_qubits g - 1),
      MultiControlledX None [0, 1, 2, 3] (Some ''100''),
      Hadamard (n_qubits g - 1)]"

definition diffusion_gates :: "globals \<Rightarrow> error + int gate list" where
  "diffusion_gates g =
     and_then
       (new_MultiControlledX None (map (\<lambda>i. i) (range_py (n_qubits g))) None) (\<lambda>mcx.
         Inr (for_each (range_py (n_qubits g)) (\<lambda>i. [Hadamard i])
              @ for_each (range_py (n_qubits g)) (\<lambda>i. [PauliX i])
              @ [Hadamard (n_qubits g - 1), mcx, Hadamard (n_qubits g - 1)]
              @ for_each (range_py (n_qubits g)) (\<lambda>i. [PauliX i])
              @ for_each (range_py (n_qubits g)) (\<lambda>i. [Hadamard i])))"

text \<open>
  The body of the quantum node \<open>grover_circuit\<close>: it reads \<open>grover_iterations\<close>, and
  through the three functions \<open>n_qubits\<close>, when the node is called.
\<close>

definition grover_circuit :: "globals \<Rightarrow> error + int gate list" where
  "grover_circuit g =
     and_then
       (for_each_raising (range_py (grover_iterations g)) (\<lambda>_.
          and_then (diffusion_gates g) (\<lambda>dif. Inr (oracle_gates g @ dif)))) (\<lambda>its.
         Inr (state_preparation_gates g @ its))"

text \<open>
  The cell of the quantum node: \<open>@qml.qnode(single_shot_device)\<close> binds the node to the
  device that the variable holds when the cell is run. Calling the node executes its tape
  on that device; \<open>qml.sample()\<close> samples all the wires.
\<close>

definition cell_grover_circuit :: "globals \<Rightarrow> globals" where
  "cell_grover_circuit g = g\<lparr>grover_circuit_device := single_shot_device g\<rparr>"

definition grover_node :: "globals \<Rightarrow> error + int state" where
  "grover_node g = and_then (grover_circuit g) (execute (grover_circuit_device g))"

section \<open>Grover\_ToyExample\<close>

text \<open>
  The functions of this notebook take lists of wire labels and index them; Python raises
  \<open>IndexError\<close> where an index is out of range, and counts a negative index from the
  end of the list.
\<close>

definition py_index :: "'a list \<Rightarrow> int \<Rightarrow> error + 'a" where
  "py_index xs i =
     (if 0 \<le> i \<and> i < int (length xs) then Inr (xs ! nat i)
      else if i < 0 \<and> - int (length xs) \<le> i then Inr (xs ! nat (int (length xs) + i))
      else Inl IndexError)"

text \<open>
  \<open>diffuser\<close>: the slice \<open>qubits[:-1]\<close> never fails, and \<open>qubits[-1]\<close> is evaluated
  three times, first for the Hadamard gate before the multi-controlled X gate.
\<close>

definition diffuser :: "'w list \<Rightarrow> error + 'w gate list" where
  "diffuser qubits =
     (let hs = for_each qubits (\<lambda>qubit. [Hadamard qubit]);
          xs = for_each qubits (\<lambda>qubit. [PauliX qubit])
      in and_then (py_index qubits (- 1)) (\<lambda>t.
         and_then (py_index qubits (- 1)) (\<lambda>t'.
         and_then (new_MultiControlledX (Some (butlast qubits)) [t'] None) (\<lambda>mcx.
         and_then (py_index qubits (- 1)) (\<lambda>t''.
           Inr (hs @ xs @ [Hadamard t, mcx, Hadamard t''] @ xs @ hs))))))"

text \<open>
  Solution 1.1.3, Solution 1.1.5 (the loop carries the counter \<open>i\<close>) and Solution 1.1.6
  (the notebook's function \<open>oracle\<close>, named \<open>oracle_toy\<close> here).
\<close>

definition xor :: "'w list \<Rightarrow> 'w list \<Rightarrow> error + 'w gate list" where
  "xor input_qubits output_qubits =
     and_then (py_index input_qubits 0) (\<lambda>a.
     and_then (py_index output_qubits 0) (\<lambda>c.
     and_then (new_CNOT [a, c]) (\<lambda>first.
     and_then (py_index input_qubits 1) (\<lambda>b.
     and_then (py_index output_qubits 0) (\<lambda>c'.
     and_then (new_CNOT [b, c']) (\<lambda>second.
       Inr [first, second]))))))"

fun clause_loop :: "int list list \<Rightarrow> 'w list \<Rightarrow> 'w list \<Rightarrow> int \<Rightarrow> error + 'w gate list" where
  "clause_loop [] tile_qubits clause_qubits i = Inr []"
| "clause_loop (clause # rest) tile_qubits clause_qubits i =
     and_then (py_index clause 0) (\<lambda>j.
     and_then (py_index tile_qubits j) (\<lambda>a.
     and_then (py_index clause 1) (\<lambda>k.
     and_then (py_index tile_qubits k) (\<lambda>b.
     and_then (py_index clause_qubits i) (\<lambda>c.
     and_then (xor [a, b] [c]) (\<lambda>gs.
     and_then (clause_loop rest tile_qubits clause_qubits (i + 1)) (\<lambda>gs'.
       Inr (gs @ gs'))))))))"

definition clause_circuit :: "int list list \<Rightarrow> 'w list \<Rightarrow> 'w list \<Rightarrow> error + 'w gate list" where
  "clause_circuit clause_list tile_qubits clause_qubits =
     clause_loop clause_list tile_qubits clause_qubits 0"

definition oracle_toy ::
  "int list list \<Rightarrow> 'w list \<Rightarrow> 'w list \<Rightarrow> 'w list \<Rightarrow> error + 'w gate list" where
  "oracle_toy clause_list tile_qubits clause_qubits result_qubits =
     and_then (clause_circuit clause_list tile_qubits clause_qubits) (\<lambda>compute.
     and_then (new_MultiControlledX (Some clause_qubits) result_qubits None) (\<lambda>mcx.
     and_then (clause_circuit clause_list tile_qubits clause_qubits) (\<lambda>undo.
       Inr (compute @ [mcx] @ undo))))"

text \<open>Solution 1.2 and Solution 1.3.\<close>

definition init_states :: "'w list \<Rightarrow> 'w list \<Rightarrow> error + 'w gate list" where
  "init_states tile_qubits result_qubits =
     (let hs = for_each tile_qubits (\<lambda>q. [Hadamard q])
      in and_then (py_index result_qubits 0) (\<lambda>r.
         and_then (py_index result_qubits 0) (\<lambda>r'.
           Inr (hs @ [PauliX r, Hadamard r']))))"

definition grover_iteration ::
  "int list list \<Rightarrow> 'w list \<Rightarrow> 'w list \<Rightarrow> 'w list \<Rightarrow> error + 'w gate list" where
  "grover_iteration clause_list tile_qubits clause_qubits result_qubits =
     and_then (oracle_toy clause_list tile_qubits clause_qubits result_qubits) (\<lambda>orc.
     and_then (diffuser tile_qubits) (\<lambda>dif.
       Inr (orc @ dif)))"

definition grover ::
  "int list list \<Rightarrow> 'w list \<Rightarrow> 'w list \<Rightarrow> 'w list \<Rightarrow> error + 'w gate list" where
  "grover clause_list tile_qubits clause_qubits result_qubits =
     and_then (init_states tile_qubits result_qubits) (\<lambda>i.
     and_then (grover_iteration clause_list tile_qubits clause_qubits result_qubits) (\<lambda>it.
       Inr (i @ it)))"

text \<open>
  Task 3 asks for the same circuit with \<open>R\<close> iteration steps: the initialisation once,
  then \<open>grover_iteration\<close> \<open>R\<close> times. \<open>grover\<close> is the case \<open>R = 1\<close>.
\<close>

fun grover_iterations_loop ::
  "nat \<Rightarrow> int list list \<Rightarrow> 'w list \<Rightarrow> 'w list \<Rightarrow> 'w list \<Rightarrow> error + 'w gate list" where
  "grover_iterations_loop 0 cl tq cq rq = Inr []"
| "grover_iterations_loop (Suc R) cl tq cq rq =
     and_then (grover_iteration cl tq cq rq) (\<lambda>it.
     and_then (grover_iterations_loop R cl tq cq rq) (\<lambda>its.
       Inr (it @ its)))"

definition grover_steps ::
  "nat \<Rightarrow> int list list \<Rightarrow> 'w list \<Rightarrow> 'w list \<Rightarrow> 'w list \<Rightarrow> error + 'w gate list" where
  "grover_steps R cl tq cq rq =
     and_then (init_states tq rq) (\<lambda>i.
     and_then (grover_iterations_loop R cl tq cq rq) (\<lambda>its.
       Inr (i @ its)))"

text \<open>
  Solution 1.1.1 and Solution 1.1.2: the module-level values the notebook passes to the
  functions above.
\<close>

definition clause_list :: "int list list" where
  "clause_list = [[0, 1], [0, 2], [1, 3], [2, 3]]"

definition tile_qubits :: "string list" where
  "tile_qubits = [''t_0'', ''t_1'', ''t_2'', ''t_3'']"

definition clause_qubits :: "string list" where
  "clause_qubits = [''c_0'', ''c_1'', ''c_2'', ''c_3'']"

definition result_qubits :: "string list" where
  "result_qubits = [''r_0'']"

text \<open>
  Modelled from the spec: \<open>workshop.utils.flatten_list\<close> is imported by the notebook
  and its source is not part of the material; the notebook uses it "to define the final
  list of all wires" from the three registers, so it is taken to join the lists in order.
\<close>

definition flatten_list :: "'a list list \<Rightarrow> 'a list" where
  "flatten_list xss = concat xss"

definition wires :: "string list" where
  "wires = flatten_list [tile_qubits, clause_qubits, result_qubits]"

text \<open>
  Solution 1.1.4 assigns the module-level \<open>device\<close> and, in the same piece of code,
  defines the quantum node \<open>execute\<close> with \<open>@qml.qnode(device)\<close>: the node keeps the
  device it was defined with, whatever \<open>device\<close> is assigned later. A call
  \<open>execute(circuit, wires, *args)\<close> calls \<open>circuit(*args)\<close> (modelled by what that call
  emits or raises), then \<open>qml.sample(wires=wires)\<close>, which the library refuses for an
  empty list, a repeated wire and a wire that the device does not have, and runs the tape
  on the node's device. The result is the distribution of one sample.
\<close>

record toy_globals =
  device :: "string list"
  execute_device :: "string list"

definition cell_device :: "toy_globals \<Rightarrow> toy_globals" where
  "cell_device g = g\<lparr>device := wires, execute_device := wires\<rparr>"

definition execute_circuit ::
  "toy_globals \<Rightarrow> error + string gate list \<Rightarrow> string list \<Rightarrow> error + (bool list \<Rightarrow> real)" where
  "execute_circuit g circuit ws =
     and_then circuit (\<lambda>tape.
       if ws \<noteq> [] \<and> distinct ws \<and> list_all (\<lambda>w. w \<in> set (execute_device g)) ws
       then and_then (execute (execute_device g) tape) (\<lambda>\<psi>.
              Inr (prob (execute_device g) \<psi> ws))
       else Inl LibraryError)"

section \<open>Auxiliary notions\<close>

text \<open>Flipping, and clearing, the bits of all the wires of a register.\<close>

definition flip_all :: "'w list \<Rightarrow> 'w basis \<Rightarrow> 'w basis" where
  "flip_all qs y = (\<lambda>w. if w \<in> set qs then \<not> y w else y w)"

definition clear :: "'w list \<Rightarrow> 'w basis \<Rightarrow> 'w basis" where
  "clear qs y = (\<lambda>w. if w \<in> set qs then False else y w)"

text \<open>Writing the bits \<open>bs\<close> to the wires \<open>ws\<close> of a basis state.\<close>

fun set_bits :: "'w list \<Rightarrow> bool list \<Rightarrow> 'w basis \<Rightarrow> 'w basis" where
  "set_bits (w # ws) (b # bs) y = set_bits ws bs (y(w := b))"
| "set_bits _ _ y = y"

text \<open>
  The reflection \<open>2|psi><psi| - I\<close> about the uniform superposition \<open>psi\<close> of a register
  \<open>qs\<close>, acting on that register: every basis state of the register has the amplitude
  \<open>uniform_amp qs\<close> in \<open>psi\<close>.
\<close>

definition uniform_amp :: "'w list \<Rightarrow> complex" where
  "uniform_amp qs = 1 / complex_of_real (sqrt (2 ^ length qs))"

definition reflection :: "'w list \<Rightarrow> 'w state \<Rightarrow> 'w state" where
  "reflection qs \<phi> =
     (\<lambda>y. 2 * (uniform_amp qs * sum_over qs (\<lambda>z. cnj (uniform_amp qs) * \<phi> z) y) - \<phi> y)"

text \<open>
  What the eight CNOT gates of the clause computation do to a basis state of the toy
  example: clause bit \<open>i\<close> is flipped when the two tiles of clause \<open>i\<close> differ.
\<close>

definition clause_values :: "string basis \<Rightarrow> string basis" where
  "clause_values y = y
     (''c_0'' := (y ''c_0'' \<noteq> (y ''t_0'' \<noteq> y ''t_1'')),
      ''c_1'' := (y ''c_1'' \<noteq> (y ''t_0'' \<noteq> y ''t_2'')),
      ''c_2'' := (y ''c_2'' \<noteq> (y ''t_1'' \<noteq> y ''t_3'')),
      ''c_3'' := (y ''c_3'' \<noteq> (y ''t_2'' \<noteq> y ''t_3'')))"

text \<open>The gates that \<open>clause_circuit\<close> emits for the notebook's clause list and registers.\<close>

definition clause_tape :: "string gate list" where
  "clause_tape =
     [CNOT [''t_0'', ''c_0''], CNOT [''t_1'', ''c_0''],
      CNOT [''t_0'', ''c_1''], CNOT [''t_2'', ''c_1''],
      CNOT [''t_1'', ''c_2''], CNOT [''t_3'', ''c_2''],
      CNOT [''t_2'', ''c_3''], CNOT [''t_3'', ''c_3'']]"

text \<open>All four clause bits are set once the clauses are computed.\<close>

definition all_clauses :: "string basis \<Rightarrow> bool" where
  "all_clauses y = (\<forall>c\<in>set clause_qubits. clause_values y c)"

text \<open>
  A tile assignment satisfies the clause list when the two tiles of every clause differ.
\<close>

definition satisfies_clauses :: "bool list \<Rightarrow> bool" where
  "satisfies_clauses t =
     list_all (\<lambda>clause. t ! nat (clause ! 0) \<noteq> t ! nat (clause ! 1)) clause_list"

text \<open>
  The states the toy circuit passes through: the clause qubits are zero, the result
  qubit is in the minus state, a tile assignment has the amplitude \<open>b\<close> when it is one
  of the two solutions and \<open>a\<close> otherwise.
\<close>

definition is_solution :: "string basis \<Rightarrow> bool" where
  "is_solution y =
     (map y tile_qubits = [False, True, True, False] \<or> map y tile_qubits = [True, False, False, True])"

definition grover_state :: "real \<Rightarrow> real \<Rightarrow> string state" where
  "grover_state a b =
     (\<lambda>y. if map y clause_qubits = [False, False, False, False]
          then complex_of_real ((if is_solution y then b else a) * (if y ''r_0'' then - 1 else 1) / sqrt 2)
          else 0)"

text \<open>The gates that the toy functions emit for the notebook's registers.\<close>

definition init_tape :: "string gate list" where
  "init_tape = map Hadamard tile_qubits @ [PauliX ''r_0'', Hadamard ''r_0'']"

definition oracle_tape :: "string gate list" where
  "oracle_tape = clause_tape @ [MultiControlledX (Some clause_qubits) result_qubits None] @ clause_tape"

definition diffuser_tape_toy :: "string gate list" where
  "diffuser_tape_toy = map Hadamard tile_qubits @ map PauliX tile_qubits
     @ [Hadamard (last tile_qubits), MultiControlledX (Some (butlast tile_qubits)) [last tile_qubits] None,
        Hadamard (last tile_qubits)]
     @ map PauliX tile_qubits @ map Hadamard tile_qubits"

text \<open>
  The success probability of Task 3 for \<open>R\<close> iteration steps, \<open>N\<close> states and \<open>M\<close>
  solutions, as the notebook writes it.
\<close>

definition success_formula :: "nat \<Rightarrow> real \<Rightarrow> real \<Rightarrow> real" where
  "success_formula R N M = (sin ((2 * real R + 1) * arccos (sqrt ((N - M) / N))))\<^sup>2"

text \<open>The angle of the toy example and the amplitudes after \<open>R\<close> iterations.\<close>

definition theta :: real where
  "theta = arccos (sqrt ((16 - 2) / 16))"

definition amp_a :: "nat \<Rightarrow> real" where
  "amp_a R = (- 1) ^ R * cos ((2 * real R + 1) * theta) / sqrt 14"

definition amp_b :: "nat \<Rightarrow> real" where
  "amp_b R = (- 1) ^ R * sin ((2 * real R + 1) * theta) / sqrt 2"

text \<open>The gates that \<open>diffusion_gates\<close> emits when \<open>n_qubits\<close> is \<open>n\<close>, two or more.\<close>

definition diffusion_tape :: "int \<Rightarrow> int gate list" where
  "diffusion_tape n =
     map Hadamard (range_py n) @ map PauliX (range_py n)
     @ [Hadamard (n - 1), MultiControlledX None (range_py n) None, Hadamard (n - 1)]
     @ map PauliX (range_py n) @ map Hadamard (range_py n)"

text \<open>
  The states the four-qubit circuit passes through: the amplitude \<open>b\<close> on the solution
  1001 and \<open>a\<close> on every other basis state.
\<close>

definition marked_state :: "real \<Rightarrow> real \<Rightarrow> int state" where
  "marked_state a b =
     (\<lambda>y. complex_of_real
            (if map y (device_wires 4) = [True, False, False, True] then b else a))"

text \<open>The wires a gate acts on, and the wires of a tape.\<close>

fun gate_wires :: "'w gate \<Rightarrow> 'w list" where
  "gate_wires (Hadamard w) = [w]"
| "gate_wires (PauliX w) = [w]"
| "gate_wires (PauliZ w) = [w]"
| "gate_wires (CZ ws) = ws"
| "gate_wires (CNOT ws) = ws"
| "gate_wires (MultiControlledX cw ws cv) = mcx_controls cw ws @ ws"

definition tape_wires :: "'w gate list \<Rightarrow> 'w set" where
  "tape_wires tape = set (concat (map gate_wires tape))"

text \<open>The gates of one \<open>grover_iteration\<close> on the notebook's registers.\<close>

definition iteration_tape :: "string gate list" where
  "iteration_tape = oracle_tape @ diffuser_tape_toy"


section \<open>Laws of the gates\<close>

lemma sqrt2c: "complex_of_real (sqrt 2) * complex_of_real (sqrt 2) = 2"
  by (metis of_real_mult of_real_numeral real_sqrt_mult_self abs_numeral)

lemma sqrt2c_left: "complex_of_real (sqrt 2) * (complex_of_real (sqrt 2) * x) = 2 * x"
  using sqrt2c by (metis mult.assoc)

lemma sqrt2c_ne: "complex_of_real (sqrt 2) \<noteq> 0"
  by simp

lemma run_append: "run (a @ b) \<psi> = run b (run a \<psi>)"
  by (induction a arbitrary: \<psi>) simp_all

lemma for_each_single: "for_each xs (\<lambda>x. [G x]) = map G xs"
  by (induction xs) simp_all

lemma hadamard_twice: "apply_gate (Hadamard w) (apply_gate (Hadamard w) \<psi>) = (\<psi> :: 'w state)"
proof (rule ext)
  fix y :: "'w basis"
  have "y(w := y w) = y" by simp
  then have a: "y w \<Longrightarrow> y(w := True) = y" and b: "\<not> y w \<Longrightarrow> y(w := False) = y"
    by metis+
  show "apply_gate (Hadamard w) (apply_gate (Hadamard w) \<psi>) y = \<psi> y"
    by (cases "y w") (simp_all add: a b add_divide_distrib diff_divide_distrib sqrt2c divide_divide_eq_left)
qed

lemma hadamard_commute:
  assumes "w \<noteq> v"
  shows "apply_gate (Hadamard w) (apply_gate (Hadamard v) \<psi>)
       = apply_gate (Hadamard v) (apply_gate (Hadamard w) (\<psi> :: 'w state))"
proof (rule ext)
  fix y :: "'w basis"
  have tw: "\<And>a b. y(w := a, v := b) = y(v := b, w := a)"
    using assms by (simp add: fun_upd_twist)
  show "apply_gate (Hadamard w) (apply_gate (Hadamard v) \<psi>) y
      = apply_gate (Hadamard v) (apply_gate (Hadamard w) \<psi>) y"
    using assms by (simp add: tw add_divide_distrib diff_divide_distrib algebra_simps)
qed

lemma hadamard_past_hadamards:
  "w \<notin> set qs \<Longrightarrow>
   apply_gate (Hadamard w) (run (map Hadamard qs) \<psi>)
   = run (map Hadamard qs) (apply_gate (Hadamard w) \<psi>)"
proof (induction qs arbitrary: \<psi>)
  case Nil
  then show ?case by simp
next
  case (Cons q qs)
  then have "w \<noteq> q" "w \<notin> set qs" by auto
  then show ?case
    using Cons.IH [of "apply_gate (Hadamard q) \<psi>"] hadamard_commute [of w q \<psi>]
    by (simp del: apply_gate.simps)
qed

lemma hadamards_twice:
  "distinct qs \<Longrightarrow> run (map Hadamard qs) (run (map Hadamard qs) \<psi>) = \<psi>"
proof (induction qs arbitrary: \<psi>)
  case Nil
  then show ?case by simp
next
  case (Cons q qs)
  then have q: "q \<notin> set qs" and d: "distinct qs" by auto
  have "run (map Hadamard (q # qs)) (run (map Hadamard (q # qs)) \<psi>)
      = run (map Hadamard qs) (apply_gate (Hadamard q)
          (run (map Hadamard qs) (apply_gate (Hadamard q) \<psi>)))"
    by (simp del: apply_gate.simps)
  also have "\<dots> = run (map Hadamard qs) (run (map Hadamard qs)
          (apply_gate (Hadamard q) (apply_gate (Hadamard q) \<psi>)))"
    using hadamard_past_hadamards [OF q] by (simp del: apply_gate.simps)
  also have "\<dots> = \<psi>"
    using Cons.IH [OF d] hadamard_twice [of q \<psi>] by (simp del: apply_gate.simps)
  finally show ?case .
qed

lemma paulix_all:
  "distinct qs \<Longrightarrow> run (map PauliX qs) \<psi> = (\<lambda>y. \<psi> (flip_all qs y))"
proof (induction qs arbitrary: \<psi>)
  case Nil
  then show ?case by (simp add: flip_all_def)
next
  case (Cons q qs)
  then have q: "q \<notin> set qs" and d: "distinct qs" by auto
  have "\<And>y. flip q (flip_all qs y) = flip_all (q # qs) y"
    using q by (auto simp: flip_def flip_all_def fun_eq_iff)
  then show ?case
    using Cons.IH [OF d, of "apply_gate (PauliX q) \<psi>"] by simp
qed

lemma all_ones: "(map y cs = replicate (length cs) True) = (\<forall>c\<in>set cs. y c)"
  by (induction cs) auto

lemma controlled_phase:
  assumes "ws \<noteq> []" and "last ws \<notin> set (mcx_controls cw ws)"
  shows "run [Hadamard (last ws), MultiControlledX cw ws cv, Hadamard (last ws)] (\<psi> :: 'w state)
       = (\<lambda>y. if fires (mcx_controls cw ws) (mcx_values cv (mcx_controls cw ws)) y \<and> y (last ws)
               then - \<psi> y else \<psi> y)"
proof (rule ext)
  fix y :: "'w basis"
  let ?t = "last ws" and ?cs = "mcx_controls cw ws"
  have m: "\<And>b. map (y(?t := b)) ?cs = map y ?cs"
    using assms(2) by (intro map_cong) auto
  have f: "\<And>b. fires ?cs (mcx_values cv ?cs) (y(?t := b)) = fires ?cs (mcx_values cv ?cs) y"
    by (simp only: fires_def m)
  have "y(?t := y ?t) = y" by simp
  then have a: "y ?t \<Longrightarrow> y(?t := True) = y" and b: "\<not> y ?t \<Longrightarrow> y(?t := False) = y"
    by metis+
  show "run [Hadamard ?t, MultiControlledX cw ws cv, Hadamard ?t] \<psi> y
      = (if fires ?cs (mcx_values cv ?cs) y \<and> y ?t then - \<psi> y else \<psi> y)"
    using assms(1)
    by (cases "y ?t")
       (simp_all add: f a b flip_def Let_def add_divide_distrib diff_divide_distrib
          sqrt2c divide_divide_eq_left)
qed

lemma sum_over_indep:
  "(\<And>w. w \<notin> set qs \<Longrightarrow> y w = y' w) \<Longrightarrow> sum_over qs f y = sum_over qs f y'"
proof (induction qs arbitrary: y y')
  case Nil
  then have "y = y'" by (simp add: fun_eq_iff)
  then show ?case by simp
next
  case (Cons q qs)
  have "sum_over qs f (y(q := b)) = sum_over qs f (y'(q := b))" for b
    by (rule Cons.IH) (use Cons.prems in auto)
  then show ?case by simp
qed

lemma sum_over_cong_outside:
  "(\<And>z. (\<And>w. w \<notin> set qs \<Longrightarrow> z w = y w) \<Longrightarrow> f z = g z) \<Longrightarrow> sum_over qs f y = sum_over qs g y"
proof (induction qs arbitrary: y)
  case Nil
  then show ?case by simp
next
  case (Cons q qs)
  have "sum_over qs f (y(q := b)) = sum_over qs g (y(q := b))" for b
    by (rule Cons.IH, rule Cons.prems) (auto split: if_splits)
  then show ?case by simp
qed

lemma sum_over_add: "sum_over qs (\<lambda>z. f z + g z) y = sum_over qs f y + sum_over qs g y"
  by (induction qs arbitrary: y) (simp_all add: add_ac)

lemma sum_over_divide:
  "sum_over qs (\<lambda>z. f z / c) y = sum_over qs f y / (c :: complex)"
  by (induction qs arbitrary: y) (simp_all add: add_divide_distrib)

lemma sum_over_upd:
  "q \<notin> set qs \<Longrightarrow> sum_over qs (\<lambda>z. f (z(q := b))) y = sum_over qs f (y(q := b))"
proof (induction qs arbitrary: y)
  case Nil
  then show ?case by simp
next
  case (Cons p qs)
  then have pq: "p \<noteq> q" and q: "q \<notin> set qs" by auto
  have tw: "(y(p := a))(q := b) = (y(q := b))(p := a)" for a
    using pq by (rule fun_upd_twist)
  show ?case
    by (simp only: sum_over.simps Cons.IH [OF q] tw)
qed

lemma hadamards_linear:
  "run (map Hadamard qs) (\<lambda>y. a y + c * b y)
   = (\<lambda>y. run (map Hadamard qs) a y + c * run (map Hadamard qs) b y)"
proof (induction qs arbitrary: a b)
  case Nil
  then show ?case by simp
next
  case (Cons q qs)
  have "apply_gate (Hadamard q) (\<lambda>y. a y + c * b y)
      = (\<lambda>y. apply_gate (Hadamard q) a y + c * apply_gate (Hadamard q) b y)"
    by (rule ext) (simp add: add_divide_distrib algebra_simps)
  then show ?case
    using Cons.IH [of "apply_gate (Hadamard q) a" "apply_gate (Hadamard q) b"]
    by (simp del: apply_gate.simps)
qed

lemma hadamards_at_zero:
  "distinct qs \<Longrightarrow> (\<And>q. q \<in> set qs \<Longrightarrow> \<not> y q) \<Longrightarrow>
   run (map Hadamard qs) \<phi> y = sum_over qs \<phi> y / complex_of_real (sqrt 2) ^ length qs"
proof (induction qs arbitrary: \<phi>)
  case Nil
  then show ?case by simp
next
  case (Cons q qs)
  then have q: "q \<notin> set qs" and d: "distinct qs" and z: "\<And>p. p \<in> set qs \<Longrightarrow> \<not> y p"
    and yq: "\<not> y q"
    by auto
  have "sum_over qs (apply_gate (Hadamard q) \<phi>) y
      = sum_over qs (\<lambda>z. (\<phi> (z(q := False)) + \<phi> (z(q := True))) / complex_of_real (sqrt 2)) y"
  proof (rule sum_over_cong_outside)
    fix z :: "'a basis"
    assume "\<And>w. w \<notin> set qs \<Longrightarrow> z w = y w"
    then have "\<not> z q" using q yq by simp
    then show "apply_gate (Hadamard q) \<phi> z
             = (\<phi> (z(q := False)) + \<phi> (z(q := True))) / complex_of_real (sqrt 2)"
      by simp
  qed
  also have "\<dots> = (sum_over qs \<phi> (y(q := False)) + sum_over qs \<phi> (y(q := True))) / complex_of_real (sqrt 2)"
    by (simp add: sum_over_divide sum_over_add sum_over_upd [OF q])
  finally have t: "sum_over qs (apply_gate (Hadamard q) \<phi>) y
      = sum_over (q # qs) \<phi> y / complex_of_real (sqrt 2)"
    by simp
  have "run (map Hadamard (q # qs)) \<phi> y = run (map Hadamard qs) (apply_gate (Hadamard q) \<phi>) y"
    by (simp del: apply_gate.simps)
  also have "\<dots> = sum_over qs (apply_gate (Hadamard q) \<phi>) y / complex_of_real (sqrt 2) ^ length qs"
    by (rule Cons.IH [OF d z])
  finally show ?case
    by (simp add: t del: apply_gate.simps sum_over.simps)
qed

lemma hadamards_of_zero_part:
  "distinct qs \<Longrightarrow>
   run (map Hadamard qs) (\<lambda>y. if \<forall>q\<in>set qs. \<not> y q then \<chi> y else 0)
   = (\<lambda>y. \<chi> (clear qs y) / complex_of_real (sqrt 2) ^ length qs)"
proof (induction qs arbitrary: \<chi>)
  case Nil
  then show ?case by (simp add: clear_def)
next
  case (Cons q qs)
  then have q: "q \<notin> set qs" and d: "distinct qs" by auto
  have "apply_gate (Hadamard q) (\<lambda>y. if \<forall>p\<in>set (q # qs). \<not> y p then \<chi> y else 0)
      = (\<lambda>y. if \<forall>p\<in>set qs. \<not> y p then \<chi> (y(q := False)) / complex_of_real (sqrt 2) else 0)"
    using q by (rule_tac ext) auto
  moreover have "\<And>y. (clear qs y)(q := False) = clear (q # qs) y"
    by (auto simp: clear_def fun_eq_iff)
  ultimately show ?case
    using Cons.IH [OF d, of "\<lambda>y. \<chi> (y(q := False)) / complex_of_real (sqrt 2)"]
    by (simp del: apply_gate.simps add: divide_divide_eq_left mult.commute)
qed

lemma sqrt2_pow_sq: "(complex_of_real (sqrt 2) ^ n) * (complex_of_real (sqrt 2) ^ n) = 2 ^ n"
  by (metis power_mult_distrib sqrt2c)

lemma phase_flip_zero:
  assumes "distinct qs" and "qs \<noteq> []" and "ws \<noteq> []" and "last ws = last qs"
    and "mcx_controls cw ws = butlast qs"
  shows "run (map PauliX qs @ [Hadamard (last qs), MultiControlledX cw ws None, Hadamard (last qs)]
              @ map PauliX qs) (\<psi> :: 'w state)
       = (\<lambda>y. if \<forall>q\<in>set qs. \<not> y q then - \<psi> y else \<psi> y)"
proof -
  have "distinct (butlast qs @ [last qs])"
    using assms(1,2) by simp
  then have nin: "last ws \<notin> set (mcx_controls cw ws)"
    by (simp add: assms(4,5))
  have "set qs = set (butlast qs @ [last qs])"
    using assms(2) by simp
  then have set_qs: "set qs = insert (last qs) (set (butlast qs))"
    by simp
  have mid: "run [Hadamard (last qs), MultiControlledX cw ws None, Hadamard (last qs)] \<chi>
      = (\<lambda>y. if \<forall>q\<in>set qs. y q then - \<chi> y else \<chi> y)" for \<chi> :: "'w state"
    using controlled_phase [OF assms(3) nin, of None \<chi>]
    by (simp only: assms(4,5) fires_def mcx_values_def option.case all_ones set_qs) (auto simp: fun_eq_iff)
  have fa: "\<And>y. flip_all qs (flip_all qs y) = y"
    by (auto simp: flip_all_def fun_eq_iff)
  have fb: "\<And>y. (\<forall>q\<in>set qs. flip_all qs y q) = (\<forall>q\<in>set qs. \<not> y q)"
    by (auto simp: flip_all_def)
  show ?thesis
    by (simp only: run_append mid paulix_all [OF assms(1)] fa fb)
qed

lemma diffuser_core:
  assumes "distinct qs" and "qs \<noteq> []" and "ws \<noteq> []" and "last ws = last qs"
    and "mcx_controls cw ws = butlast qs"
  shows "run (map Hadamard qs @ map PauliX qs
              @ [Hadamard (last qs), MultiControlledX cw ws None, Hadamard (last qs)]
              @ map PauliX qs @ map Hadamard qs) (\<phi> :: 'w state)
       = (\<lambda>y. \<phi> y - 2 * sum_over qs \<phi> y / 2 ^ length qs)"
proof -
  let ?H = "run (map Hadamard qs)"
  let ?c = "complex_of_real (sqrt 2) ^ length qs"
  let ?M = "map PauliX qs @ [Hadamard (last qs), MultiControlledX cw ws None, Hadamard (last qs)]
              @ map PauliX qs"
  have 1: "run ?M (?H \<phi>)
      = (\<lambda>y. ?H \<phi> y + (- 2) * (if \<forall>q\<in>set qs. \<not> y q then ?H \<phi> y else 0))"
    by (simp only: phase_flip_zero [OF assms]) (auto simp: fun_eq_iff)
  have 2: "?H (\<lambda>y. if \<forall>q\<in>set qs. \<not> y q then ?H \<phi> y else 0)
      = (\<lambda>y. sum_over qs \<phi> y / 2 ^ length qs)"
  proof (rule ext)
    fix y :: "'w basis"
    have z: "\<And>q. q \<in> set qs \<Longrightarrow> \<not> clear qs y q" by (simp add: clear_def)
    have "sum_over qs \<phi> (clear qs y) = sum_over qs \<phi> y"
      by (rule sum_over_indep) (simp add: clear_def)
    then show "?H (\<lambda>y. if \<forall>q\<in>set qs. \<not> y q then ?H \<phi> y else 0) y = sum_over qs \<phi> y / 2 ^ length qs"
      by (simp only: hadamards_of_zero_part [OF assms(1)] hadamards_at_zero [OF assms(1) z]
            divide_divide_eq_left sqrt2_pow_sq)
  qed
  have "run (map Hadamard qs @ ?M @ map Hadamard qs) \<phi> = ?H (run ?M (?H \<phi>))"
    by (simp only: run_append)
  also have "\<dots> = (\<lambda>y. ?H (?H \<phi>) y + (- 2) * (sum_over qs \<phi> y / 2 ^ length qs))"
    by (simp only: 1 hadamards_linear 2)
  also have "\<dots> = (\<lambda>y. \<phi> y - 2 * sum_over qs \<phi> y / 2 ^ length qs)"
    by (simp add: hadamards_twice [OF assms(1)])
  finally show ?thesis by (simp only: append_assoc)
qed

section \<open>The two-qubit example and the oracles\<close>

lemma range_py_2: "range_py 2 = [0, 1]"
  by (simp add: range_py_def upto.simps)

lemma range_py_4: "range_py 4 = [0, 1, 2, 3]"
  by (simp add: range_py_def upto.simps)

lemma grover_circuit2_tape:
  "grover_circuit2 = [Hadamard 0, Hadamard 1, CZ [0, 1], Hadamard 0, PauliZ 0, Hadamard 1,
     PauliZ 1, CZ [0, 1], Hadamard 0, Hadamard 1]"
  by (simp add: grover_circuit2_def state_preparation_gates2_def oracle_gates2_def
      diffusion_gates2_def range_py_2)

lemma grover_circuit2_state:
  "run grover_circuit2 (ket0 (device_wires 2)) = ket (device_wires 2) [True, True]"
proof (rule ext)
  fix y :: "int basis"
  show "run grover_circuit2 (ket0 (device_wires 2)) y = ket (device_wires 2) [True, True] y"
    by (cases "y 0"; cases "y 1")
      (simp_all add: grover_circuit2_tape device_wires_def range_py_2 ket0_def ket_def
        flip_def add_divide_distrib diff_divide_distrib sqrt2c sqrt2c_left)
qed

lemma grover_circuit2_accepted: "list_all (accepts (device_wires 2)) grover_circuit2"
  by (simp add: grover_circuit2_tape device_wires_def range_py_2)

text \<open>
  C9: in the two-qubit example with solution 11, state preparation, the CZ oracle and
  the diffuser leave the register exactly in the basis state 11 (the global phase is 1):
  the library accepts the tape, every other amplitude is exactly zero, and a sample
  reads 11 with probability exactly 1.
\<close>

theorem two_qubit_grover_exact:
  "execute (device_wires 2) grover_circuit2 = Inr (ket (device_wires 2) [True, True])
   \<and> prob (device_wires 2) (ket (device_wires 2) [True, True]) (device_wires 2) [True, True] = 1"
  by (simp add: execute_def grover_circuit2_accepted grover_circuit2_state)
     (simp add: prob_def ket_def device_wires_def range_py_2)

lemma oracle_gates2_phase:
  "run oracle_gates2 (ket (device_wires 2) bs)
   = (\<lambda>y. (if bs = [True, True] then - 1 else 1) * ket (device_wires 2) bs y)"
  by (rule ext) (auto simp: oracle_gates2_def ket_def device_wires_def range_py_2)

lemma oracle_gates_phase:
  "run (oracle_gates (cell_n_qubits g)) (ket (device_wires 4) bs)
   = (\<lambda>y. (if bs = [True, False, False, True] then - 1 else 1) * ket (device_wires 4) bs y)"
proof -
  have "run (oracle_gates (cell_n_qubits g)) \<psi>
      = (\<lambda>y. if fires [0, 1, 2] [True, False, False] y \<and> y 3 then - \<psi> y else \<psi> y)"
    for \<psi> :: "int state"
    using controlled_phase [where ws = "[0, 1, 2, 3::int]" and cw = None and cv = "Some ''100''" and \<psi> = \<psi>]
    by (simp add: oracle_gates_def cell_n_qubits_def mcx_controls_def mcx_values_def
        del: run.simps apply_gate.simps)
  then show ?thesis
    by (auto simp: fun_eq_iff fires_def ket_def device_wires_def range_py_4)
qed

lemma oracle_gates_accepted:
  "list_all (accepts (device_wires 2)) oracle_gates2
   \<and> list_all (accepts (device_wires 4)) (oracle_gates (cell_n_qubits g))"
  by (simp add: oracle_gates2_def oracle_gates_def cell_n_qubits_def device_wires_def
      range_py_2 range_py_4 mcx_controls_def)

text \<open>
  C3: the oracle multiplies the solution basis state by -1 and leaves every other basis
  state as it is: in the two-qubit example (a CZ gate) the state 11, in the four-qubit
  example (with \<open>n_qubits = 4\<close>) the state 1001. The devices accept both tapes.
\<close>

theorem oracle_marks_solution:
  "run oracle_gates2 (ket (device_wires 2) bs)
     = (\<lambda>y. (if bs = [True, True] then - 1 else 1) * ket (device_wires 2) bs y)
   \<and> run (oracle_gates (cell_n_qubits g)) (ket (device_wires 4) cs)
     = (\<lambda>y. (if cs = [True, False, False, True] then - 1 else 1) * ket (device_wires 4) cs y)
   \<and> list_all (accepts (device_wires 2)) oracle_gates2
   \<and> list_all (accepts (device_wires 4)) (oracle_gates (cell_n_qubits g))"
  using oracle_gates2_phase [of bs] oracle_gates_phase [of g cs] oracle_gates_accepted [of g]
  by blast

section \<open>State preparation and the diffuser\<close>

lemma range_py_distinct: "distinct (range_py n)"
  by (simp add: range_py_def)

lemma range_py_length: "length (range_py n) = nat n"
  by (simp add: range_py_def)

lemma all_zeros: "(map y qs = replicate (length qs) False) = (\<forall>q\<in>set qs. \<not> y q)"
  by (induction qs) auto

lemma ket0_zero_part: "ket0 dev = (\<lambda>y. if \<forall>q\<in>set dev. \<not> y q then 1 else 0)"
  by (simp add: ket0_def ket_def all_zeros)

lemma hadamards_ket0:
  "distinct dev \<Longrightarrow>
   run (map Hadamard dev) (ket0 dev) = (\<lambda>y. 1 / complex_of_real (sqrt 2) ^ length dev)"
  using hadamards_of_zero_part [of dev "\<lambda>_. 1"] by (simp only: ket0_zero_part)

lemma sum_over_zero: "sum_over qs (\<lambda>_. 0) y = 0"
  by (induction qs arbitrary: y) simp_all

lemma sum_over_match:
  "distinct (ws @ rest) \<Longrightarrow> length bs = length ws \<Longrightarrow>
   sum_over (ws @ rest) (\<lambda>y. if map y ws = bs then f y else 0) y0
   = sum_over rest f (set_bits ws bs y0)"
proof (induction ws arbitrary: bs y0)
  case Nil
  then show ?case by simp
next
  case (Cons q ws)
  then obtain b bs' where bs: "bs = b # bs'" and len: "length bs' = length ws"
    by (cases bs) auto
  from Cons.prems have q: "q \<notin> set (ws @ rest)" and d: "distinct (ws @ rest)"
    by auto
  let ?F = "\<lambda>y. if map y (q # ws) = bs then f y else 0"
  let ?G = "\<lambda>y. if map y ws = bs' then f y else 0"
  have hit: "sum_over (ws @ rest) ?F (y0(q := b)) = sum_over (ws @ rest) ?G (y0(q := b))"
    by (rule sum_over_cong_outside) (use q bs in auto)
  have miss: "sum_over (ws @ rest) ?F (y0(q := (\<not> b))) = sum_over (ws @ rest) (\<lambda>_. 0) (y0(q := (\<not> b)))"
    by (rule sum_over_cong_outside) (use q bs in auto)
  have "sum_over ((q # ws) @ rest) ?F y0 = sum_over (ws @ rest) ?G (y0(q := b))"
    using hit miss by (cases b) (simp_all add: sum_over_zero)
  also have "\<dots> = sum_over rest f (set_bits ws bs' (y0(q := b)))"
    by (rule Cons.IH [OF d len])
  finally show ?case by (simp add: bs)
qed

lemma sqrt2_pow_norm: "(cmod (1 / complex_of_real (sqrt 2) ^ n))\<^sup>2 = 1 / 2 ^ n"
proof -
  have "(sqrt 2 ^ n)\<^sup>2 = (sqrt 2 ^ 2) ^ n"
    by (simp only: power_mult [symmetric] mult.commute)
  then have s: "(sqrt 2 ^ n)\<^sup>2 = 2 ^ n"
    by simp
  have "cmod (1 / complex_of_real (sqrt 2) ^ n) = 1 / sqrt 2 ^ n"
    by (simp add: norm_divide norm_power)
  then show ?thesis
    by (simp only: power_divide s power_one)
qed

lemma sqrt2_pow_powr: "1 / complex_of_real (sqrt 2) ^ n = complex_of_real (2 powr (- real n / 2))"
proof -
  have "sqrt 2 ^ n = (2 powr (1 / 2)) ^ n"
    by (simp add: powr_half_sqrt)
  also have "\<dots> = (2 powr (1 / 2)) powr real n"
    by (rule powr_realpow [symmetric]) simp
  also have "\<dots> = 2 powr (real n / 2)"
    by (simp only: powr_powr) simp
  finally have "1 / sqrt 2 ^ n = 2 powr (- real n / 2)"
    by (simp add: powr_minus inverse_eq_divide)
  then have "complex_of_real (1 / sqrt 2 ^ n) = complex_of_real (2 powr (- real n / 2))"
    by (rule arg_cong)
  then show ?thesis
    by (simp only: of_real_divide of_real_power of_real_1)
qed

lemma state_preparation_tape:
  "state_preparation_gates g = map Hadamard (range_py (n_qubits g))"
  by (simp add: state_preparation_gates_def for_each_single)

lemma prep_accept: "list_all (accepts dev) (map Hadamard dev)"
  by (simp add: list_all_iff)

lemma sum_over_scale: "sum_over qs (\<lambda>z. c * f z) y = c * sum_over qs f y"
  for c :: complex
  by (induction qs arbitrary: y) (simp_all add: distrib_left)

lemma uniform_amp_sq: "uniform_amp qs * cnj (uniform_amp qs) = 1 / 2 ^ length qs"
proof -
  have "complex_of_real (sqrt (2 ^ length qs)) * complex_of_real (sqrt (2 ^ length qs))
      = complex_of_real (2 ^ length qs)"
    by (simp only: of_real_mult [symmetric]) simp
  then show ?thesis
    by (simp add: uniform_amp_def)
qed

lemma reflection_mean:
  "reflection qs \<phi> = (\<lambda>y. 2 * sum_over qs \<phi> y / 2 ^ length qs - \<phi> y)"
proof (rule ext)
  fix y :: "'a basis"
  have "uniform_amp qs * sum_over qs (\<lambda>z. cnj (uniform_amp qs) * \<phi> z) y
      = (uniform_amp qs * cnj (uniform_amp qs)) * sum_over qs \<phi> y"
    by (simp only: sum_over_scale mult.assoc)
  then show "reflection qs \<phi> y = 2 * sum_over qs \<phi> y / 2 ^ length qs - \<phi> y"
    by (simp add: reflection_def uniform_amp_sq)
qed

lemma diffusion_gates2_tape:
  "diffusion_gates2 = [Hadamard 0, PauliZ 0, Hadamard 1, PauliZ 1, CZ [0, 1], Hadamard 0, Hadamard 1]"
  by (simp add: diffusion_gates2_def range_py_2)

lemma diffusion_gates2_reflection:
  "run diffusion_gates2 \<phi> = reflection (device_wires 2) \<phi>"
proof (rule ext)
  fix y :: "int basis"
  have tw: "\<And>a b. y(1 := a, 0 := b) = y(0 := b, 1 := a)"
    by (simp add: fun_upd_twist)
  have "y(0 := y 0, 1 := y 1) = y" by simp
  then have e: "\<And>a b. y 0 = a \<Longrightarrow> y 1 = b \<Longrightarrow> y(0 := a, 1 := b) = y"
    by auto
  show "run diffusion_gates2 \<phi> y = reflection (device_wires 2) \<phi> y"
    by (cases "y 0"; cases "y 1")
      (simp_all add: diffusion_gates2_tape reflection_mean device_wires_def range_py_2 tw e
        add_divide_distrib diff_divide_distrib sqrt2c sqrt2c_left divide_divide_eq_left algebra_simps)
qed

lemma sum_over_const: "sum_over qs (\<lambda>_. c) y = 2 ^ length qs * c"
  for c :: complex
  by (induction qs arbitrary: y) simp_all

lemma sum_over_total:
  "sum_over qs (\<lambda>z. sum_over qs \<phi> z) y = 2 ^ length qs * sum_over qs \<phi> y"
  for \<phi> :: "'w state"
proof -
  have "sum_over qs (\<lambda>z. sum_over qs \<phi> z) y = sum_over qs (\<lambda>_. sum_over qs \<phi> y) y"
    by (rule sum_over_cong_outside) (rule sum_over_indep, simp)
  then show ?thesis
    by (simp only: sum_over_const)
qed

lemma sum_over_mean_minus:
  "sum_over qs (\<lambda>z. 2 * sum_over qs \<phi> z / 2 ^ length qs - \<phi> z) y = sum_over qs \<phi> y"
  for \<phi> :: "'w state"
proof -
  have "sum_over qs (\<lambda>z. 2 * sum_over qs \<phi> z / 2 ^ length qs - \<phi> z) y
      = sum_over qs (\<lambda>z. (2 / 2 ^ length qs) * sum_over qs \<phi> z + (- 1) * \<phi> z) y"
    by simp
  also have "\<dots> = (2 / 2 ^ length qs) * (2 ^ length qs * sum_over qs \<phi> y) + (- 1) * sum_over qs \<phi> y"
    by (simp only: sum_over_add sum_over_scale sum_over_total)
  also have "\<dots> = sum_over qs \<phi> y"
    by simp
  finally show ?thesis .
qed

lemma reflection_reflection: "reflection qs (reflection qs \<phi>) = \<phi>"
  by (rule ext) (simp add: reflection_mean sum_over_mean_minus)

lemma reflection_neg: "reflection qs (\<lambda>y. - \<phi> y) = (\<lambda>y. - reflection qs \<phi> y)"
proof (rule ext)
  fix y :: "'a basis"
  have "sum_over qs (\<lambda>y. - \<phi> y) y = sum_over qs (\<lambda>y. (- 1) * \<phi> y) y"
    by simp
  then have "sum_over qs (\<lambda>y. - \<phi> y) y = - sum_over qs \<phi> y"
    by (simp only: sum_over_scale) simp
  then show "reflection qs (\<lambda>y. - \<phi> y) y = - reflection qs \<phi> y"
    by (simp add: reflection_mean)
qed

lemma reflection_uniform: "reflection qs (\<lambda>_. c) = (\<lambda>_. c)"
  by (rule ext) (simp add: reflection_mean sum_over_const)

lemma reflection_orthogonal: "sum_over qs \<phi> y = 0 \<Longrightarrow> reflection qs \<phi> y = - \<phi> y"
  by (simp add: reflection_mean)

lemma diffuser_core_reflection:
  assumes "distinct qs" and "qs \<noteq> []" and "ws \<noteq> []" and "last ws = last qs"
    and "mcx_controls cw ws = butlast qs"
  shows "run (map Hadamard qs @ map PauliX qs
              @ [Hadamard (last qs), MultiControlledX cw ws None, Hadamard (last qs)]
              @ map PauliX qs @ map Hadamard qs) (\<phi> :: 'w state)
       = (\<lambda>y. - reflection qs \<phi> y)"
  by (simp only: diffuser_core [OF assms] reflection_mean) simp

lemma range_py_last: "1 \<le> n \<Longrightarrow> last (range_py n) = n - 1"
  by (simp add: range_py_def upto_rec2)

lemma range_py_nonempty: "1 \<le> n \<Longrightarrow> range_py n \<noteq> []"
  by (simp add: range_py_def)

lemma new_MultiControlledX_range:
  "2 \<le> n \<Longrightarrow>
   new_MultiControlledX None (range_py n) cv = Inr (MultiControlledX None (range_py n) cv)"
  by (simp add: new_MultiControlledX_def range_py_length range_py_distinct distinct_butlast)

lemma diffusion_gates_tape:
  "2 \<le> n_qubits g \<Longrightarrow> diffusion_gates g = Inr (diffusion_tape (n_qubits g))"
  by (simp add: diffusion_gates_def diffusion_tape_def new_MultiControlledX_range and_then_def
      for_each_single)

lemma diffusion_tape_reflection:
  assumes "1 \<le> n"
  shows "run (diffusion_tape n) \<phi> = (\<lambda>y. - reflection (device_wires n) \<phi> y)"
  using diffuser_core_reflection [of "range_py n" "range_py n" None \<phi>] assms
  by (simp only: diffusion_tape_def device_wires_def range_py_last [OF assms, symmetric])
     (simp add: range_py_distinct range_py_nonempty mcx_controls_def)

lemma diffusion_tape_accepted:
  assumes "2 \<le> n"
  shows "list_all (accepts (device_wires n)) (diffusion_tape n)"
proof -
  let ?qs = "range_py n"
  have n: "1 \<le> n" using assms by simp
  have ne: "?qs \<noteq> []" by (rule range_py_nonempty [OF n])
  then have l: "last ?qs \<in> set ?qs" by simp
  have b: "butlast ?qs @ [last ?qs] = ?qs"
    using ne by simp
  have "length (butlast ?qs) = nat n - 1"
    by (simp add: range_py_length)
  moreover have "nat n - 1 \<noteq> 0"
    using assms by arith
  ultimately have bn: "butlast ?qs \<noteq> []"
    by (metis list.size(3))
  have d: "distinct (butlast ?qs @ [last ?qs])"
    by (simp only: b range_py_distinct)
  have m: "list_all (\<lambda>w. w \<in> set ?qs) (butlast ?qs @ [last ?qs])"
    by (simp only: b) (simp add: list_all_iff)
  have "accepts ?qs (MultiControlledX None ?qs None)"
    using assms bn d m by (auto simp: mcx_controls_def range_py_length)
  then show ?thesis
    using l
    by (simp only: diffusion_tape_def device_wires_def range_py_last [OF n, symmetric])
       (auto simp: list_all_iff)
qed

lemma py_index_last: "qs \<noteq> [] \<Longrightarrow> py_index qs (- 1) = Inr (last qs)"
  by (cases qs rule: rev_cases) (simp_all add: py_index_def nth_append)

lemma diffuser_tape:
  "qubits \<noteq> [] \<Longrightarrow> distinct (butlast qubits) \<Longrightarrow>
   diffuser qubits = Inr (map Hadamard qubits @ map PauliX qubits
     @ [Hadamard (last qubits), MultiControlledX (Some (butlast qubits)) [last qubits] None,
        Hadamard (last qubits)]
     @ map PauliX qubits @ map Hadamard qubits)"
  by (simp add: diffuser_def and_then_def py_index_last for_each_single Let_def
      new_MultiControlledX_def)

lemma diffuser_reflection:
  assumes "distinct qubits" and "qubits \<noteq> []"
  shows "\<exists>tape. diffuser qubits = Inr tape \<and> run tape \<phi> = (\<lambda>y. - reflection qubits \<phi> y)"
  using diffuser_core_reflection [of qubits "[last qubits]" "Some (butlast qubits)" \<phi>] assms
  by (simp only: diffuser_tape [OF assms(2) distinct_butlast [OF assms(1)]])
     (simp add: mcx_controls_def)

lemma diffuser_accepted:
  assumes "distinct qubits" and "2 \<le> length qubits" and "set qubits \<subseteq> set dev"
  shows "list_all (accepts dev)
     (map Hadamard qubits @ map PauliX qubits
      @ [Hadamard (last qubits), MultiControlledX (Some (butlast qubits)) [last qubits] None,
         Hadamard (last qubits)]
      @ map PauliX qubits @ map Hadamard qubits)"
proof -
  have ne: "qubits \<noteq> []" using assms(2) by auto
  then have l: "last qubits \<in> set qubits" by simp
  have b: "butlast qubits @ [last qubits] = qubits"
    using ne by simp
  have bn: "butlast qubits \<noteq> []"
    using assms(2) by (cases qubits rule: rev_cases) auto
  have d: "distinct (butlast qubits @ [last qubits])"
    by (simp only: b assms(1))
  have m: "list_all (\<lambda>w. w \<in> set dev) (butlast qubits @ [last qubits])"
    using assms(3) by (simp only: b) (auto simp: list_all_iff)
  have "accepts dev (MultiControlledX (Some (butlast qubits)) [last qubits] None)"
    using bn d m by (simp add: mcx_controls_def)
  then show ?thesis
    using l assms(3) by (auto simp: list_all_iff)
qed

lemma diffusion_gates2_accepted: "list_all (accepts (device_wires 2)) diffusion_gates2"
  by (simp add: diffusion_gates2_def device_wires_def range_py_2)

text \<open>
  C4: the diffuser is the reflection about the uniform superposition of its register,
  up to a global phase. The two-qubit solution applies \<open>2|psi><psi| - I\<close> itself; the
  n-qubit solution, for two or more qubits, and the toy example's \<open>diffuser\<close>, on two or
  more different wires of a device, emit a tape that the device executes and that
  applies the negative of the reflection. The reflection keeps a uniform state, negates
  a state orthogonal to the uniform superposition, and is its own inverse, and so is
  each diffuser.
\<close>

theorem diffuser_is_reflection:
  fixes \<phi> :: "int state" and \<chi> :: "'w state"
  assumes "2 \<le> n_qubits g" and "distinct qubits" and "2 \<le> length qubits"
    and "distinct dev" and "set qubits \<subseteq> set dev"
  shows "run diffusion_gates2 \<phi> = reflection (device_wires 2) \<phi>
    \<and> list_all (accepts (device_wires 2)) diffusion_gates2
    \<and> run diffusion_gates2 (run diffusion_gates2 \<phi>) = \<phi>
    \<and> (\<exists>tape. diffusion_gates g = Inr tape
          \<and> list_all (accepts (device_wires (n_qubits g))) tape
          \<and> run tape \<phi> = (\<lambda>y. - reflection (device_wires (n_qubits g)) \<phi> y)
          \<and> run tape (run tape \<phi>) = \<phi>)
    \<and> (\<exists>tape. diffuser qubits = Inr tape
          \<and> list_all (accepts dev) tape
          \<and> run tape \<chi> = (\<lambda>y. - reflection qubits \<chi> y)
          \<and> run tape (run tape \<chi>) = \<chi>)
    \<and> reflection qubits (\<lambda>_. c) = (\<lambda>_. c)
    \<and> (sum_over qubits \<chi> y = 0 \<longrightarrow> reflection qubits \<chi> y = - \<chi> y)
    \<and> reflection qubits (reflection qubits \<chi>) = \<chi>"
proof -
  have n: "1 \<le> n_qubits g" using assms(1) by simp
  have ne: "qubits \<noteq> []" using assms(3) by auto
  have neg2: "(\<lambda>y. - reflection qs (\<lambda>y. - reflection qs \<psi> y) y) = \<psi>"
    for qs :: "'v list" and \<psi>
    by (simp add: reflection_neg reflection_reflection)
  let ?tape = "map Hadamard qubits @ map PauliX qubits
     @ [Hadamard (last qubits), MultiControlledX (Some (butlast qubits)) [last qubits] None,
        Hadamard (last qubits)]
     @ map PauliX qubits @ map Hadamard qubits"
  have t: "diffuser qubits = Inr ?tape"
    by (rule diffuser_tape [OF ne distinct_butlast [OF assms(2)]])
  have r: "run ?tape \<psi> = (\<lambda>y. - reflection qubits \<psi> y)" for \<psi>
    using diffuser_core_reflection [OF assms(2) ne, of "[last qubits]" "Some (butlast qubits)"]
    by (simp add: mcx_controls_def)
  have a: "list_all (accepts dev) ?tape"
    by (rule diffuser_accepted [OF assms(2,3,5)])
  have 1: "run diffusion_gates2 \<phi> = reflection (device_wires 2) \<phi>"
    by (rule diffusion_gates2_reflection)
  have 2: "list_all (accepts (device_wires 2)) diffusion_gates2"
    by (rule diffusion_gates2_accepted)
  have 3: "run diffusion_gates2 (run diffusion_gates2 \<phi>) = \<phi>"
    by (simp only: diffusion_gates2_reflection reflection_reflection)
  have 4: "\<exists>tape. diffusion_gates g = Inr tape
          \<and> list_all (accepts (device_wires (n_qubits g))) tape
          \<and> run tape \<phi> = (\<lambda>y. - reflection (device_wires (n_qubits g)) \<phi> y)
          \<and> run tape (run tape \<phi>) = \<phi>"
    using diffusion_gates_tape [OF assms(1)] diffusion_tape_accepted [OF assms(1)]
    by (simp add: diffusion_tape_reflection [OF n] neg2)
  have 5: "\<exists>tape. diffuser qubits = Inr tape
          \<and> list_all (accepts dev) tape
          \<and> run tape \<chi> = (\<lambda>y. - reflection qubits \<chi> y)
          \<and> run tape (run tape \<chi>) = \<chi>"
  proof (intro exI conjI)
    show "diffuser qubits = Inr ?tape" by (rule t)
    show "list_all (accepts dev) ?tape" by (rule a)
    show "run ?tape \<chi> = (\<lambda>y. - reflection qubits \<chi> y)" by (rule r)
    show "run ?tape (run ?tape \<chi>) = \<chi>" by (simp only: r neg2)
  qed
  have 6: "reflection qubits (\<lambda>_. c) = (\<lambda>_. c)"
    by (rule reflection_uniform)
  have 7: "sum_over qubits \<chi> y = 0 \<longrightarrow> reflection qubits \<chi> y = - \<chi> y"
    by (simp add: reflection_orthogonal)
  have 8: "reflection qubits (reflection qubits \<chi>) = \<chi>"
    by (rule reflection_reflection)
  show ?thesis
    using 1 2 3 4 5 6 7 8 by blast
qed

theorem diffuser_is_reflection_witness:
  "(2::int) \<le> 4 \<and> distinct tile_qubits \<and> 2 \<le> length tile_qubits
   \<and> distinct wires \<and> set tile_qubits \<subseteq> set wires
   \<and> (\<exists>tape. diffusion_gates
           \<lparr>n_qubits = 4, single_shot_device = device_wires 4, grover_iterations = 3,
            grover_circuit_device = device_wires 4\<rparr> = Inr tape
         \<and> list_all (accepts (device_wires 4)) tape
         \<and> run tape (ket0 (device_wires 4))
             = (\<lambda>y. - reflection (device_wires 4) (ket0 (device_wires 4)) y))
   \<and> (\<exists>tape. diffuser tile_qubits = Inr tape
         \<and> list_all (accepts wires) tape
         \<and> run tape (ket0 wires) = (\<lambda>y. - reflection tile_qubits (ket0 wires) y)
         \<and> run tape (run tape (ket0 wires)) = ket0 wires)
   \<and> sum_over tile_qubits (\<lambda>z. if z ''t_0'' then 1 else - 1) (\<lambda>_. False) = (0 :: complex)
   \<and> reflection tile_qubits (\<lambda>z. if z ''t_0'' then 1 else - 1) (\<lambda>_. False) = 1"
proof -
  let ?g = "\<lparr>n_qubits = 4, single_shot_device = device_wires 4, grover_iterations = 3,
            grover_circuit_device = device_wires 4\<rparr>"
  let ?\<chi> = "\<lambda>z :: string basis. if z ''t_0'' then 1 else - 1 :: complex"
  have h: "(2::int) \<le> n_qubits ?g" "distinct tile_qubits" "2 \<le> length tile_qubits"
    "distinct wires" "set tile_qubits \<subseteq> set wires"
    by (simp_all add: tile_qubits_def clause_qubits_def result_qubits_def wires_def
        flatten_list_def)
  have z: "sum_over tile_qubits ?\<chi> (\<lambda>_. False) = 0"
    by (simp add: tile_qubits_def)
  have a: "\<exists>tape. diffusion_gates ?g = Inr tape
         \<and> list_all (accepts (device_wires 4)) tape
         \<and> run tape (ket0 (device_wires 4))
             = (\<lambda>y. - reflection (device_wires 4) (ket0 (device_wires 4)) y)"
    using diffuser_is_reflection [OF h, where \<phi> = "ket0 (device_wires 4)" and \<chi> = "ket0 wires"]
    by auto
  have b: "\<exists>tape. diffuser tile_qubits = Inr tape
         \<and> list_all (accepts wires) tape
         \<and> run tape (ket0 wires) = (\<lambda>y. - reflection tile_qubits (ket0 wires) y)
         \<and> run tape (run tape (ket0 wires)) = ket0 wires"
    using diffuser_is_reflection [OF h, where \<phi> = "ket0 (device_wires 4)" and \<chi> = "ket0 wires"]
    by blast
  have c: "reflection tile_qubits ?\<chi> (\<lambda>_. False) = 1"
    using z diffuser_is_reflection [OF h, where \<chi> = ?\<chi> and y = "\<lambda>_. False"]
    by simp
  show ?thesis
    using h z a b c by simp
qed

section \<open>The oracle of the toy example\<close>

lemma clause_circuit_tape:
  "clause_circuit clause_list tile_qubits clause_qubits = Inr clause_tape"
  by (simp add: clause_circuit_def clause_list_def tile_qubits_def clause_qubits_def
      and_then_def py_index_def xor_def new_CNOT_def clause_tape_def)

lemma new_MultiControlledX_result:
  "new_MultiControlledX (Some clause_qubits) result_qubits None
   = Inr (MultiControlledX (Some clause_qubits) result_qubits None)"
  by (simp add: new_MultiControlledX_def clause_qubits_def result_qubits_def)

lemma oracle_toy_tape:
  "oracle_toy clause_list tile_qubits clause_qubits result_qubits
   = Inr (clause_tape @ [MultiControlledX (Some clause_qubits) result_qubits None] @ clause_tape)"
  by (simp add: oracle_toy_def clause_circuit_tape new_MultiControlledX_result and_then_def)

lemma xor_run:
  assumes "c \<noteq> a" and "c \<noteq> b"
  shows "run [CNOT [a, c], CNOT [b, c]] \<psi> = (\<lambda>y. \<psi> (y(c := (y c \<noteq> (y a \<noteq> y b)))))"
proof (rule ext)
  fix y :: "'a basis"
  have "y(c := y c) = y" by simp
  then have e: "\<And>v. v = y c \<Longrightarrow> y(c := v) = y" by simp
  show "run [CNOT [a, c], CNOT [b, c]] \<psi> y = \<psi> (y(c := (y c \<noteq> (y a \<noteq> y b))))"
    using assms by (cases "y a"; cases "y b") (simp_all add: flip_def e)
qed

lemma clause_tape_run: "run clause_tape \<psi> = (\<lambda>y. \<psi> (clause_values y))"
proof -
  have s: "clause_tape = [CNOT [''t_0'', ''c_0''], CNOT [''t_1'', ''c_0'']]
      @ [CNOT [''t_0'', ''c_1''], CNOT [''t_2'', ''c_1'']]
      @ [CNOT [''t_1'', ''c_2''], CNOT [''t_3'', ''c_2'']]
      @ [CNOT [''t_2'', ''c_3''], CNOT [''t_3'', ''c_3'']]"
    by (simp add: clause_tape_def)
  have v: "clause_values y = y
     (''c_3'' := (y ''c_3'' \<noteq> (y ''t_2'' \<noteq> y ''t_3'')),
      ''c_2'' := (y ''c_2'' \<noteq> (y ''t_1'' \<noteq> y ''t_3'')),
      ''c_1'' := (y ''c_1'' \<noteq> (y ''t_0'' \<noteq> y ''t_2'')),
      ''c_0'' := (y ''c_0'' \<noteq> (y ''t_0'' \<noteq> y ''t_1'')))" for y
    by (simp add: clause_values_def fun_eq_iff)
  show ?thesis
    by (simp only: s run_append v) (simp add: xor_run del: run.simps)
qed

lemma clause_values_twice: "clause_values (clause_values y) = y"
  by (auto simp: clause_values_def fun_eq_iff)

lemma clause_values_flip: "clause_values (flip ''r_0'' (clause_values y)) = flip ''r_0'' y"
  by (auto simp: clause_values_def flip_def fun_eq_iff)

lemma mcx_result_run:
  "run [MultiControlledX (Some clause_qubits) result_qubits None] \<psi>
   = (\<lambda>y. if \<forall>c\<in>set clause_qubits. y c then \<psi> (flip ''r_0'' y) else \<psi> y)"
proof -
  have f: "fires clause_qubits (mcx_values None clause_qubits) y = (\<forall>c\<in>set clause_qubits. y c)" for y
    by (simp only: fires_def mcx_values_def option.case all_ones)
  show ?thesis
    by (simp add: mcx_controls_def result_qubits_def f cong: if_cong)
qed

lemma oracle_run:
  "run (clause_tape @ [MultiControlledX (Some clause_qubits) result_qubits None] @ clause_tape) \<psi>
   = (\<lambda>y. if all_clauses y then \<psi> (flip ''r_0'' y) else \<psi> y)"
  by (simp only: run_append clause_tape_run mcx_result_run all_clauses_def
      clause_values_twice clause_values_flip if_distrib [of \<psi>] cong: if_cong)

lemma wires_list:
  "wires = [''t_0'', ''t_1'', ''t_2'', ''t_3'', ''c_0'', ''c_1'', ''c_2'', ''c_3'', ''r_0'']"
  by (simp add: wires_def flatten_list_def tile_qubits_def clause_qubits_def result_qubits_def)

lemma oracle_accepted:
  "list_all (accepts wires)
     (clause_tape @ [MultiControlledX (Some clause_qubits) result_qubits None] @ clause_tape)"
  by (simp add: wires_list clause_tape_def clause_qubits_def result_qubits_def mcx_controls_def)

lemma length4: "length t = 4 \<Longrightarrow> \<exists>a b c d. t = [a, b, c, d]"
  by (cases t; simp; cases "tl t"; simp; cases "tl (tl t)"; simp; cases "tl (tl (tl t))"; simp)

lemma satisfies_clauses_iff:
  "satisfies_clauses [a, b, c, d] = ([a, b, c, d] = [False, True, True, False] \<or> [a, b, c, d] = [True, False, False, True])"
  by (auto simp: satisfies_clauses_def clause_list_def)

lemma ket_wires:
  "ket wires [t0, t1, t2, t3, c0, c1, c2, c3, r] y
   = (if map y tile_qubits = [t0, t1, t2, t3] \<and> map y clause_qubits = [c0, c1, c2, c3]
        \<and> y ''r_0'' = r then 1 else 0)"
  by (simp add: ket_def wires_list tile_qubits_def clause_qubits_def)

lemma all_clauses_on_basis:
  assumes "map y tile_qubits = [a, b, c, d]" and "map y clause_qubits = [False, False, False, False]"
  shows "all_clauses y = satisfies_clauses [a, b, c, d]"
  using assms
  by (simp add: all_clauses_def clause_values_def clause_qubits_def tile_qubits_def
      satisfies_clauses_def clause_list_def)

lemma flip_result_other:
  "map (flip ''r_0'' y) tile_qubits = map y tile_qubits"
  "map (flip ''r_0'' y) clause_qubits = map y clause_qubits"
  "flip ''r_0'' y ''r_0'' = (\<not> y ''r_0'')"
  by (simp_all add: flip_def tile_qubits_def clause_qubits_def)

lemma oracle_on_basis:
  "run (clause_tape @ [MultiControlledX (Some clause_qubits) result_qubits None] @ clause_tape)
     (ket wires ([a, b, c, d] @ [False, False, False, False] @ [r]))
   = ket wires ([a, b, c, d] @ [False, False, False, False] @ [r \<noteq> satisfies_clauses [a, b, c, d]])"
proof -
  let ?k = "ket wires ([a, b, c, d] @ [False, False, False, False] @ [r])"
  have "(if all_clauses y then ?k (flip ''r_0'' y) else ?k y)
      = ket wires ([a, b, c, d] @ [False, False, False, False] @ [r \<noteq> satisfies_clauses [a, b, c, d]]) y"
    for y
  proof (cases "map y tile_qubits = [a, b, c, d] \<and> map y clause_qubits = [False, False, False, False]")
    case True
    then have "all_clauses y = satisfies_clauses [a, b, c, d]"
      by (simp add: all_clauses_on_basis)
    then show ?thesis
      using True by (cases "satisfies_clauses [a, b, c, d]") (auto simp: ket_wires flip_result_other)
  next
    case False
    then show ?thesis
      by (auto simp: ket_wires flip_result_other)
  qed
  then show ?thesis
    by (simp only: oracle_run)
qed

text \<open>
  C8: the toy oracle is accepted by the device and, on a basis state whose clause qubits
  are all zero, leaves the tile qubits and the clause qubits as they were and flips the
  result qubit exactly when the tiles satisfy every clause of the clause list; the
  satisfying assignments of the four tiles are exactly 0110 and 1001.
\<close>

theorem oracle_restores_ancillas:
  assumes "length t = 4"
  shows "\<exists>tape. oracle_toy clause_list tile_qubits clause_qubits result_qubits = Inr tape
    \<and> list_all (accepts wires) tape
    \<and> run tape (ket wires (t @ [False, False, False, False] @ [r]))
        = ket wires (t @ [False, False, False, False] @ [r \<noteq> satisfies_clauses t])
    \<and> (satisfies_clauses t = (t = [False, True, True, False] \<or> t = [True, False, False, True]))"
proof -
  obtain a b c d where t: "t = [a, b, c, d]"
    using length4 [OF assms] by blast
  show ?thesis
    unfolding t
    using oracle_on_basis [of a b c d r] satisfies_clauses_iff [of a b c d] oracle_accepted
    by (simp only: oracle_toy_tape) blast
qed

theorem oracle_restores_ancillas_witness:
  "length [False, True, True, False] = 4
   \<and> (\<exists>tape. oracle_toy clause_list tile_qubits clause_qubits result_qubits = Inr tape
        \<and> run tape (ket wires [False, True, True, False, False, False, False, False, False])
            = ket wires [False, True, True, False, False, False, False, False, True])"
proof -
  have h: "length [False, True, True, False] = 4" by simp
  show ?thesis
    using h oracle_restores_ancillas [OF h, of False]
    by (auto simp: satisfies_clauses_iff)
qed

section \<open>The Grover iterations of the toy example\<close>

lemma init_states_tape: "init_states tile_qubits result_qubits = Inr init_tape"
  by (simp add: init_states_def init_tape_def for_each_single and_then_def py_index_def
      result_qubits_def)

lemma tile_qubits_distinct: "distinct tile_qubits"
  by (simp add: tile_qubits_def)

lemma init_state: "run init_tape (ket0 wires) = grover_state (1 / 4) (1 / 4)"
proof -
  let ?\<chi> = "\<lambda>y :: string basis.
      if map y clause_qubits = [False, False, False, False] \<and> \<not> y ''r_0'' then (1 :: complex) else 0"
  have k: "ket0 wires = (\<lambda>y. if \<forall>q\<in>set tile_qubits. \<not> y q then ?\<chi> y else 0)"
    by (rule ext) (simp add: ket0_def ket_def wires_list tile_qubits_def clause_qubits_def)
  have c: "?\<chi> (clear tile_qubits y) = ?\<chi> y" for y
    by (simp add: clear_def tile_qubits_def clause_qubits_def)
  have p: "complex_of_real (sqrt 2) ^ length tile_qubits = 4"
    by (simp add: tile_qubits_def power4_eq_xxxx sqrt2c sqrt2c_left)
  have h: "run (map Hadamard tile_qubits) (ket0 wires) = (\<lambda>y. ?\<chi> y / 4)"
    by (simp only: k hadamards_of_zero_part [OF tile_qubits_distinct] c p)
  show ?thesis
    by (simp only: init_tape_def run_append h)
       (rule ext, simp add: grover_state_def flip_def clause_qubits_def)
qed

lemma all_clauses_solution:
  assumes "map y clause_qubits = [False, False, False, False]"
  shows "all_clauses y = is_solution y"
proof -
  have "map y tile_qubits = [y ''t_0'', y ''t_1'', y ''t_2'', y ''t_3'']"
    by (simp add: tile_qubits_def)
  then show ?thesis
    using all_clauses_on_basis [OF _ assms, of "y ''t_0''" "y ''t_1''" "y ''t_2''" "y ''t_3''"]
    by (simp only: is_solution_def satisfies_clauses_iff)
qed

lemma is_solution_flip: "is_solution (flip ''r_0'' y) = is_solution y"
  by (simp add: is_solution_def flip_result_other)

lemma oracle_grover_state: "run oracle_tape (grover_state a b) = grover_state a (- b)"
proof -
  have "(if all_clauses y then grover_state a b (flip ''r_0'' y) else grover_state a b y)
      = grover_state a (- b) y" for y
  proof (cases "map y clause_qubits = [False, False, False, False]")
    case True
    then show ?thesis
      by (simp add: all_clauses_solution grover_state_def flip_result_other is_solution_flip)
  next
    case False
    then show ?thesis
      by (simp add: grover_state_def flip_result_other)
  qed
  then show ?thesis
    by (simp only: oracle_tape_def oracle_run)
qed

lemma grover_state_tile_sum:
  "sum_over tile_qubits (grover_state a b) y
   = (if map y clause_qubits = [False, False, False, False]
      then complex_of_real ((14 * a + 2 * b) * (if y ''r_0'' then - 1 else 1) / sqrt 2) else 0)"
  by (simp add: tile_qubits_def grover_state_def is_solution_def clause_qubits_def
      add_divide_distrib algebra_simps)

lemma diffuser_grover_state:
  "run diffuser_tape_toy (grover_state a b)
   = grover_state (a - (14 * a + 2 * b) / 8) (b - (14 * a + 2 * b) / 8)"
proof -
  have d: "run diffuser_tape_toy \<phi> = (\<lambda>y. \<phi> y - 2 * sum_over tile_qubits \<phi> y / 2 ^ length tile_qubits)"
    for \<phi>
    unfolding diffuser_tape_toy_def
    by (rule diffuser_core) (simp_all add: tile_qubits_def mcx_controls_def)
  show ?thesis
    by (rule ext)
      (simp add: d grover_state_tile_sum, simp add: grover_state_def tile_qubits_def
        diff_divide_distrib add_divide_distrib algebra_simps)
qed

lemma iteration_grover_state:
  "run (oracle_tape @ diffuser_tape_toy) (grover_state a b)
   = grover_state (- (3 * a - b) / 4) (- (7 * a + 3 * b) / 4)"
proof -
  have "a - (14 * a + 2 * (- b)) / 8 = - (3 * a - b) / 4"
    and "- b - (14 * a + 2 * (- b)) / 8 = - (7 * a + 3 * b) / 4"
    by (simp_all add: field_simps)
  then show ?thesis
    by (simp only: run_append oracle_grover_state diffuser_grover_state)
qed

lemma sqrt_16: "sqrt (16::real) = 4"
  using real_sqrt_abs [of 4] by simp

lemma sqrt_14_16: "sqrt ((16 - 2) / 16) = sqrt 14 / 4"
proof -
  have "sqrt ((16 - 2) / 16) = sqrt (14 / 16)"
    by simp
  also have "\<dots> = sqrt 14 / sqrt 16"
    by (rule real_sqrt_divide)
  finally show ?thesis
    by (simp only: sqrt_16)
qed

lemma sqrt14_sq: "sqrt 14 * sqrt 14 = 14"
  by simp

lemma sqrt14_le: "sqrt 14 / 4 \<le> 1"
proof -
  have "sqrt 14 \<le> (4::real)"
    by (rule real_le_lsqrt) simp_all
  then show ?thesis
    by simp
qed

lemma sqrt14_ge: "- 1 \<le> sqrt 14 / 4"
proof -
  have "0 \<le> sqrt 14" by simp
  then show ?thesis by linarith
qed

lemma cos_theta: "cos theta = sqrt 14 / 4"
  unfolding theta_def sqrt_14_16
  by (rule cos_arccos) (rule sqrt14_ge, rule sqrt14_le)

lemma sin_theta: "sin theta = sqrt 2 / 4"
proof -
  have "sin theta = sqrt (1 - (sqrt 14 / 4)\<^sup>2)"
    unfolding theta_def sqrt_14_16
    by (rule sin_arccos) (rule sqrt14_ge, rule sqrt14_le)
  also have "1 - (sqrt 14 / 4)\<^sup>2 = 2 / 16"
    by (simp add: power2_eq_square)
  also have "sqrt (2 / 16) = sqrt 2 / 4"
    by (simp only: real_sqrt_divide sqrt_16)
  finally show ?thesis .
qed

lemma cos_2theta: "cos (2 * theta) = 3 / 4"
  by (simp add: cos_double cos_theta sin_theta power2_eq_square)

lemma sin_2theta: "sin (2 * theta) = sqrt 2 * sqrt 14 / 8"
  by (simp add: sin_double cos_theta sin_theta)

lemma amp_0: "amp_a 0 = 1 / 4" "amp_b 0 = 1 / 4"
  by (simp_all add: amp_a_def amp_b_def cos_theta sin_theta)

lemma angle_step: "(2 * real (Suc R) + 1) * theta = (2 * real R + 1) * theta + 2 * theta"
  by (simp add: algebra_simps)

lemma amp_a_Suc: "amp_a (Suc R) = - (3 * amp_a R - amp_b R) / 4"
proof -
  have u: "sqrt 2 * sqrt 2 = 2" by simp
  have "sqrt 2 * sqrt 14 / 8 / sqrt 14 = 1 / (4 * sqrt 2)"
    using u by (simp add: field_simps)
  then have e: "x * (sqrt 2 * sqrt 14 / 8) / sqrt 14 = x / sqrt 2 / 4" for x
    by (simp add: field_simps)
  show ?thesis
    unfolding amp_a_def amp_b_def angle_step cos_add cos_2theta sin_2theta
    using e [of "sin ((2 * real R + 1) * theta)"]
    by (simp add: field_simps)
qed

lemma amp_b_Suc: "amp_b (Suc R) = - (7 * amp_a R + 3 * amp_b R) / 4"
proof -
  have "sqrt 2 * sqrt 14 / 8 / sqrt 2 = sqrt 14 / 8" by simp
  moreover have "sqrt 14 / 8 = 7 / (4 * sqrt 14)"
    using sqrt14_sq by (simp add: field_simps)
  ultimately have e: "x * (sqrt 2 * sqrt 14 / 8) / sqrt 2 = 7 * (x / sqrt 14) / 4" for x
    by (simp add: field_simps)
  show ?thesis
    unfolding amp_a_def amp_b_def angle_step sin_add cos_2theta sin_2theta
    using e [of "cos ((2 * real R + 1) * theta)"]
    by (simp add: field_simps)
qed

lemma grover_iteration_tape:
  "grover_iteration clause_list tile_qubits clause_qubits result_qubits = Inr iteration_tape"
proof -
  have "tile_qubits \<noteq> []" "distinct (butlast tile_qubits)"
    by (simp_all add: tile_qubits_def)
  then show ?thesis
    by (simp add: grover_iteration_def oracle_toy_tape diffuser_tape and_then_def
        iteration_tape_def oracle_tape_def diffuser_tape_toy_def)
qed

lemma grover_iterations_loop_tape:
  "grover_iterations_loop R clause_list tile_qubits clause_qubits result_qubits
   = Inr (concat (replicate R iteration_tape))"
  by (induction R) (simp_all add: grover_iteration_tape and_then_def)

lemma grover_steps_tape:
  "grover_steps R clause_list tile_qubits clause_qubits result_qubits
   = Inr (init_tape @ concat (replicate R iteration_tape))"
  by (simp add: grover_steps_def init_states_tape grover_iterations_loop_tape and_then_def)

lemma grover_tape:
  "grover clause_list tile_qubits clause_qubits result_qubits = Inr (init_tape @ iteration_tape)"
  by (simp add: grover_def init_states_tape grover_iteration_tape and_then_def)

lemma concat_replicate_Suc: "concat (replicate (Suc R) xs) = concat (replicate R xs) @ xs"
  by (induction R) simp_all

lemma grover_steps_state:
  "run (init_tape @ concat (replicate R iteration_tape)) (ket0 wires)
   = grover_state (amp_a R) (amp_b R)"
proof (induction R)
  case 0
  then show ?case by (simp add: init_state amp_0)
next
  case (Suc R)
  have "run (init_tape @ concat (replicate (Suc R) iteration_tape)) (ket0 wires)
      = run iteration_tape (run (init_tape @ concat (replicate R iteration_tape)) (ket0 wires))"
    by (simp only: concat_replicate_Suc run_append append_assoc [symmetric])
  also have "\<dots> = run iteration_tape (grover_state (amp_a R) (amp_b R))"
    by (simp only: Suc.IH)
  also have "\<dots> = grover_state (amp_a (Suc R)) (amp_b (Suc R))"
    by (simp only: iteration_tape_def iteration_grover_state amp_a_Suc amp_b_Suc)
  finally show ?case .
qed

lemma init_tape_accepted: "list_all (accepts wires) init_tape"
  by (simp add: init_tape_def wires_list tile_qubits_def)

lemma iteration_tape_accepted: "list_all (accepts wires) iteration_tape"
  using oracle_accepted
  by (simp add: iteration_tape_def oracle_tape_def diffuser_tape_toy_def wires_list tile_qubits_def
      mcx_controls_def)

lemma grover_steps_accepted:
  "list_all (accepts wires) (init_tape @ concat (replicate R iteration_tape))"
  using init_tape_accepted iteration_tape_accepted by (induction R) simp_all

lemma prob_grover_state:
  "prob wires (grover_state a b) tile_qubits [p, q, r, s]
   = (if [p, q, r, s] = [False, True, True, False] \<or> [p, q, r, s] = [True, False, False, True]
      then b\<^sup>2 else a\<^sup>2)"
proof -
  let ?f = "\<lambda>y. (cmod (grover_state a b y))\<^sup>2"
  have w: "wires = tile_qubits @ (clause_qubits @ result_qubits)"
    by (simp add: wires_def flatten_list_def)
  have d: "distinct (tile_qubits @ (clause_qubits @ result_qubits))"
    by (simp add: tile_qubits_def clause_qubits_def result_qubits_def)
  have "prob wires (grover_state a b) tile_qubits [p, q, r, s]
      = sum_over (clause_qubits @ result_qubits) ?f (set_bits tile_qubits [p, q, r, s] (\<lambda>_. False))"
    unfolding prob_def w
    by (rule sum_over_match [OF d]) (simp add: tile_qubits_def)
  also have "\<dots> = (if [p, q, r, s] = [False, True, True, False] \<or> [p, q, r, s] = [True, False, False, True]
      then b\<^sup>2 else a\<^sup>2)"
    by (simp add: clause_qubits_def result_qubits_def tile_qubits_def grover_state_def
        is_solution_def norm_divide power_divide)
  finally show ?thesis .
qed

lemma grover_is_one_step: "grover cl tq cq rq = grover_steps 1 cl tq cq rq"
  by (cases "init_states tq rq"; cases "grover_iteration cl tq cq rq")
     (simp_all add: grover_def grover_steps_def and_then_def)

lemma neg_one_power_sq: "((- 1::real) ^ R)\<^sup>2 = 1"
proof -
  have "((- 1::real) ^ R)\<^sup>2 = ((- 1)\<^sup>2) ^ R"
    by (simp only: power_mult [symmetric] mult.commute)
  then show ?thesis by simp
qed

lemma two_amp_b_sq: "2 * (amp_b R)\<^sup>2 = success_formula R (2 ^ length tile_qubits) 2"
proof -
  have "(amp_b R)\<^sup>2 = (sin ((2 * real R + 1) * theta))\<^sup>2 / 2"
    by (simp add: amp_b_def power_mult_distrib power_divide neg_one_power_sq)
  then show ?thesis
    by (simp add: success_formula_def theta_def tile_qubits_def)
qed

lemma amp_b_1: "amp_b (Suc 0) = - 5 / 8"
  by (simp add: amp_b_Suc amp_0)

lemma success_formula_1: "success_formula 1 (2 ^ length tile_qubits) 2 = 25 / 32"
  using two_amp_b_sq [of "Suc 0"] by (simp add: amp_b_1 power2_eq_square)

text \<open>
  C1: on the device of the toy example, the circuit with \<open>R\<close> Grover iterations is
  accepted, and a sample of the tile qubits reads one of the two solutions 0110 and 1001
  with probability \<open>sin\<^sup>2((2R+1) arccos(sqrt((N-M)/N)))\<close> for \<open>N = 2^4\<close> and \<open>M = 2\<close>.
  The notebook's \<open>grover\<close> is the case \<open>R = 1\<close>, where the probability is 25/32, that
  is 78.1 per cent to three digits.
\<close>

theorem grover_success_probability:
  "(\<exists>d. execute_circuit (cell_device g)
           (grover_steps R clause_list tile_qubits clause_qubits result_qubits) tile_qubits = Inr d
        \<and> d [False, True, True, False] + d [True, False, False, True]
            = success_formula R (2 ^ length tile_qubits) 2)
   \<and> grover clause_list tile_qubits clause_qubits result_qubits
       = grover_steps 1 clause_list tile_qubits clause_qubits result_qubits
   \<and> success_formula 1 (2 ^ length tile_qubits) 2 = 25 / 32
   \<and> \<bar>success_formula 1 (2 ^ length tile_qubits) 2 - 781 / 1000\<bar> < 1 / 1000"
proof -
  let ?tape = "init_tape @ concat (replicate R iteration_tape)"
  let ?d = "prob wires (grover_state (amp_a R) (amp_b R)) tile_qubits"
  have "list_all (\<lambda>w. w \<in> set wires) tile_qubits"
    by (simp add: wires_list tile_qubits_def)
  moreover have "tile_qubits \<noteq> []" "distinct tile_qubits"
    by (simp_all add: tile_qubits_def)
  ultimately have e: "execute_circuit (cell_device g)
           (grover_steps R clause_list tile_qubits clause_qubits result_qubits) tile_qubits = Inr ?d"
    using grover_steps_accepted [of R]
    by (simp add: execute_circuit_def cell_device_def grover_steps_tape and_then_def execute_def
        grover_steps_accepted grover_steps_state)
  have "?d [False, True, True, False] + ?d [True, False, False, True] = 2 * (amp_b R)\<^sup>2"
    by (simp add: prob_grover_state)
  then have p: "?d [False, True, True, False] + ?d [True, False, False, True]
      = success_formula R (2 ^ length tile_qubits) 2"
    by (simp only: two_amp_b_sq)
  have a: "\<bar>success_formula 1 (2 ^ length tile_qubits) 2 - 781 / 1000\<bar> < 1 / 1000"
    unfolding success_formula_1 by simp
  show ?thesis
    using e p grover_is_one_step success_formula_1 a by blast
qed

lemma init_states_uniform:
  "prob wires (run init_tape (ket0 wires)) tile_qubits [p, q, r, s] = 2 powr (- 4)"
proof -
  have "(2::real) powr (- 4) = 1 / 2 ^ 4"
    by (simp add: powr_minus_divide)
  then show ?thesis
    by (simp add: init_state prob_grover_state power2_eq_square)
qed

text \<open>
  C10: for every number of qubits \<open>n \<ge> 1\<close>, the state preparation is accepted by the
  device with \<open>n\<close> wires and takes the all-zero register to the state in which every
  basis state has the amplitude \<open>2 powr (- n / 2)\<close>, so that a sample of all the wires
  reads each of the bit strings of length \<open>n\<close> with probability \<open>2 powr (- n)\<close>. The
  two-qubit solution is the case \<open>n = 2\<close>. In the toy example \<open>init_states\<close> does the
  same to the tile qubits: a sample of them reads each bit string with probability
  \<open>2 powr (- 4)\<close>.
\<close>

theorem state_preparation_uniform:
  assumes "1 \<le> n_qubits g"
  shows "(\<exists>\<psi>. execute (device_wires (n_qubits g)) (state_preparation_gates g) = Inr \<psi>
       \<and> (\<forall>y. \<psi> y = complex_of_real (2 powr (- real_of_int (n_qubits g) / 2)))
       \<and> (\<forall>bs. length bs = nat (n_qubits g) \<longrightarrow>
             prob (device_wires (n_qubits g)) \<psi> (device_wires (n_qubits g)) bs
               = 2 powr (- real_of_int (n_qubits g))))
     \<and> (n_qubits g = 2 \<longrightarrow> state_preparation_gates2 = state_preparation_gates g)
     \<and> (\<exists>\<psi>. execute wires init_tape = Inr \<psi>
           \<and> init_states tile_qubits result_qubits = Inr init_tape
           \<and> (\<forall>bs. length bs = length tile_qubits \<longrightarrow>
                 prob wires \<psi> tile_qubits bs = 2 powr (- real (length tile_qubits))))"
proof -
  let ?dev = "device_wires (n_qubits g)"
  let ?n = "nat (n_qubits g)"
  have d: "distinct ?dev" and l: "length ?dev = ?n"
    by (simp_all add: device_wires_def range_py_distinct range_py_length)
  have n: "real ?n = real_of_int (n_qubits g)"
    using assms by simp
  let ?\<psi> = "\<lambda>y :: int basis. 1 / complex_of_real (sqrt 2) ^ ?n"
  have e: "execute ?dev (state_preparation_gates g) = Inr ?\<psi>"
    using hadamards_ket0 [OF d]
    by (simp add: execute_def state_preparation_tape device_wires_def [symmetric] prep_accept l)
  have a: "\<forall>y. ?\<psi> y = complex_of_real (2 powr (- real_of_int (n_qubits g) / 2))"
    by (simp only: sqrt2_pow_powr n) simp
  have p: "prob ?dev ?\<psi> ?dev bs = 2 powr (- real_of_int (n_qubits g))"
    if "length bs = ?n" for bs
  proof -
    have "prob ?dev ?\<psi> ?dev bs = (cmod (1 / complex_of_real (sqrt 2) ^ ?n))\<^sup>2"
      using sum_over_match [of ?dev "[]" bs "\<lambda>y. (cmod (?\<psi> y))\<^sup>2" "\<lambda>_. False"] d l that
      by (simp add: prob_def)
    also have "\<dots> = 2 powr (- real ?n)"
      by (simp only: sqrt2_pow_norm) (simp add: powr_minus powr_realpow divide_inverse)
    finally show ?thesis by (simp only: n)
  qed
  have s: "n_qubits g = 2 \<longrightarrow> state_preparation_gates2 = state_preparation_gates g"
    by (simp add: state_preparation_gates2_def state_preparation_gates_def)
  have te: "execute wires init_tape = Inr (run init_tape (ket0 wires))"
    by (simp add: execute_def init_tape_accepted)
  have tp: "prob wires (run init_tape (ket0 wires)) tile_qubits bs
      = 2 powr (- real (length tile_qubits))"
    if "length bs = length tile_qubits" for bs
  proof -
    from that have "length bs = 4" by (simp add: tile_qubits_def)
    then obtain p q r s where "bs = [p, q, r, s]"
      using length4 by blast
    then show ?thesis
      using init_states_uniform [of p q r s] by (simp add: tile_qubits_def)
  qed
  show ?thesis
    using e a p s te tp init_states_tape by blast
qed

theorem state_preparation_uniform_witness:
  "(1::int) \<le> 4 \<and> (1::int) \<le> 2
   \<and> (\<exists>\<psi>. execute (device_wires 4)
            (state_preparation_gates
               \<lparr>n_qubits = 4, single_shot_device = device_wires 4, grover_iterations = 3,
                grover_circuit_device = device_wires 4\<rparr>)
          = Inr \<psi>
        \<and> \<psi> (\<lambda>_. False) = complex_of_real (2 powr (- 2))
        \<and> prob (device_wires 4) \<psi> (device_wires 4) [True, False, False, True] = 2 powr (- 4))
   \<and> state_preparation_gates2
       = state_preparation_gates
           \<lparr>n_qubits = 2, single_shot_device = device_wires 2, grover_iterations = 1,
            grover_circuit_device = device_wires 2\<rparr>
   \<and> (\<exists>\<psi>. execute wires init_tape = Inr \<psi>
        \<and> prob wires \<psi> tile_qubits [False, True, True, False] = 2 powr (- 4))"
proof -
  let ?g = "\<lparr>n_qubits = 4, single_shot_device = device_wires 4, grover_iterations = 3,
                grover_circuit_device = device_wires 4\<rparr>"
  let ?g2 = "\<lparr>n_qubits = 2, single_shot_device = device_wires 2, grover_iterations = 1,
            grover_circuit_device = device_wires 2\<rparr>"
  have h: "(1::int) \<le> n_qubits ?g" and h2: "(1::int) \<le> n_qubits ?g2"
    by simp_all
  have l: "length [False, True, True, False] = length tile_qubits"
    by (simp add: tile_qubits_def)
  obtain \<psi> where "execute (device_wires 4) (state_preparation_gates ?g) = Inr \<psi>"
    and "\<forall>y. \<psi> y = complex_of_real (2 powr (- 4 / 2))"
    and "\<forall>bs. length bs = nat 4 \<longrightarrow> prob (device_wires 4) \<psi> (device_wires 4) bs = 2 powr (- 4)"
    using state_preparation_uniform [OF h] by auto
  then have a: "\<exists>\<psi>. execute (device_wires 4) (state_preparation_gates ?g) = Inr \<psi>
        \<and> \<psi> (\<lambda>_. False) = complex_of_real (2 powr (- 2))
        \<and> prob (device_wires 4) \<psi> (device_wires 4) [True, False, False, True] = 2 powr (- 4)"
    by auto
  have b: "state_preparation_gates2 = state_preparation_gates ?g2"
    using state_preparation_uniform [OF h2] by simp
  obtain \<chi> where "execute wires init_tape = Inr \<chi>"
    and "\<forall>bs. length bs = length tile_qubits \<longrightarrow>
           prob wires \<chi> tile_qubits bs = 2 powr (- real (length tile_qubits))"
    using state_preparation_uniform [OF h] by blast
  then have c: "\<exists>\<psi>. execute wires init_tape = Inr \<psi>
        \<and> prob wires \<psi> tile_qubits [False, True, True, False] = 2 powr (- 4)"
    using l by (auto simp: tile_qubits_def)
  show ?thesis
    using a b c by simp
qed

section \<open>The number of iterations and the shape of the circuits\<close>

lemma pi_ge_3: "3 \<le> pi"
proof -
  have "sin (pi / 6) \<le> pi / 6"
    by (rule sin_x_le_x) simp
  then show ?thesis
    by (simp add: sin_30)
qed

lemma cos_7_4_neg: "cos (7 / 4 :: real) < 0"
proof -
  obtain t where "cos (7 / 4 :: real)
      = (\<Sum>m<4. cos_coeff m * (7 / 4) ^ m) + cos (t + 1 / 2 * real 4 * pi) / fact 4 * (7 / 4) ^ 4"
    using Maclaurin_cos_expansion2 [of "7 / 4" 4] by auto
  moreover have "{..<4::nat} = {0, 1, 2, 3}"
    by auto
  then have "(\<Sum>m<4. cos_coeff m * (7 / 4 :: real) ^ m) = - 17 / 32"
    by (simp add: cos_coeff_def power2_eq_square)
  moreover have "cos (t + 1 / 2 * real 4 * pi) / fact 4 * (7 / 4) ^ 4 \<le> 1 / fact 4 * (7 / 4) ^ 4"
    by (intro mult_right_mono divide_right_mono) simp_all
  moreover have "(1 :: real) / fact 4 * (7 / 4) ^ 4 = 2401 / 6144"
    by (simp add: fact_numeral power4_eq_xxxx)
  ultimately show ?thesis
    by linarith
qed

lemma pi_le_7_2: "pi \<le> 7 / 2"
proof (rule ccontr)
  assume "\<not> pi \<le> 7 / 2"
  then have "7 / 4 \<le> pi / 2" by simp
  then have "0 \<le> cos (7 / 4 :: real)"
    by (intro cos_ge_zero) simp_all
  then show False
    using cos_7_4_neg by simp
qed

lemma grover_iterations_4:
  "cell_grover_iterations (cell_n_qubits g) = Inr ((cell_n_qubits g)\<lparr>grover_iterations := 3\<rparr>)"
proof -
  have "sqrt (2 powr real_of_int 4) = 4"
    using real_sqrt_abs [of 4] by simp
  then have "sqrt (2 powr real_of_int 4) * pi / 4.0 - 0.5 = pi - 1 / 2"
    by simp
  moreover have "\<lceil>pi - 1 / 2\<rceil> = 3"
    using pi_ge_3 pi_le_7_2 by (intro ceiling_unique) simp_all
  ultimately show ?thesis
    by (simp add: cell_grover_iterations_def cell_n_qubits_def)
qed


lemma for_each_raising_const:
  "for_each_raising xs (\<lambda>_. Inr b) = Inr (concat (replicate (length xs) b))"
  by (induction xs) (simp_all add: and_then_def)

lemma grover_circuit_tape:
  "2 \<le> n_qubits g \<Longrightarrow>
   grover_circuit g = Inr (state_preparation_gates g
     @ concat (replicate (nat (grover_iterations g))
         (oracle_gates g @ diffusion_tape (n_qubits g))))"
  by (simp add: grover_circuit_def diffusion_gates_tape and_then_def for_each_raising_const
      range_py_length)



lemma run_replicate:
  "run (concat (replicate k tape)) \<chi> = ((run tape) ^^ k) \<chi>"
proof (induction k arbitrary: \<chi>)
  case 0
  then show ?case by simp
next
  case (Suc k)
  show ?case
    by (simp only: replicate_Suc concat.simps run_append Suc funpow_Suc_right o_apply)
qed

lemma grover_pipeline:
  "grover cl tq cq rq =
     and_then (init_states tq rq) (\<lambda>i.
     and_then (oracle_toy cl tq cq rq) (\<lambda>orc.
     and_then (diffuser tq) (\<lambda>dif.
       Inr (i @ concat (replicate 1 (orc @ dif))))))"
  by (cases "init_states tq rq"; cases "oracle_toy cl tq cq rq"; cases "diffuser tq")
     (simp_all add: grover_def grover_iteration_def and_then_def)

lemma oracle_gates_run:
  assumes "n_qubits g = 4"
  shows "run (oracle_gates g) \<psi>
      = (\<lambda>y. if map y (device_wires 4) = [True, False, False, True] then - \<psi> y else \<psi> y)"
proof -
  have "run (oracle_gates g) \<psi>
      = (\<lambda>y. if fires [0, 1, 2] [True, False, False] y \<and> y 3 then - \<psi> y else \<psi> y)"
    using controlled_phase [where ws = "[0, 1, 2, 3::int]" and cw = None and cv = "Some ''100''" and \<psi> = \<psi>]
    by (simp add: oracle_gates_def assms mcx_controls_def mcx_values_def
        del: run.simps apply_gate.simps)
  then show ?thesis
    by (auto simp: fun_eq_iff fires_def device_wires_def range_py_4)
qed

lemma oracle_marked_state:
  "n_qubits g = 4 \<Longrightarrow> run (oracle_gates g) (marked_state a b) = marked_state a (- b)"
  by (simp add: oracle_gates_run) (simp add: marked_state_def fun_eq_iff)

lemma marked_state_sum:
  "sum_over (device_wires 4) (marked_state a b) y = complex_of_real (15 * a + b)"
  by (simp add: device_wires_def range_py_4 marked_state_def)

lemma diffusion_marked_state:
  "run (diffusion_tape 4) (marked_state a b)
   = marked_state (a - (15 * a + b) / 8) (b - (15 * a + b) / 8)"
proof -
  have l: "length (device_wires 4) = 4"
    by (simp add: device_wires_def range_py_4)
  show ?thesis
    by (rule ext)
      (simp add: diffusion_tape_reflection reflection_mean marked_state_sum l,
        simp add: marked_state_def)
qed

lemma iteration_marked_state:
  "n_qubits g = 4 \<Longrightarrow>
   run (oracle_gates g @ diffusion_tape 4) (marked_state a b)
   = marked_state (a - (15 * a - b) / 8) (- b - (15 * a - b) / 8)"
  by (simp only: run_append oracle_marked_state diffusion_marked_state) simp

lemma prep_marked_state:
  "n_qubits g = 4 \<Longrightarrow>
   run (state_preparation_gates g) (ket0 (device_wires 4)) = marked_state (1 / 4) (1 / 4)"
proof -
  assume n: "n_qubits g = 4"
  have "sqrt 2 ^ 4 = (sqrt 2 ^ 2) ^ 2"
    using power_mult [of "sqrt 2" 2 2] by simp
  then have "sqrt 2 ^ 4 = (4::real)"
    by simp
  then have "complex_of_real (sqrt 2) ^ 4 = 4"
    by (metis of_real_power of_real_numeral)
  then show ?thesis
    using hadamards_ket0 [OF range_py_distinct, of 4]
    by (simp add: state_preparation_tape n device_wires_def range_py_length marked_state_def)
qed

lemma three_iterations_marked_state:
  assumes "n_qubits g = 4"
  shows "run (state_preparation_gates g
            @ concat (replicate 3 (oracle_gates g @ diffusion_tape 4))) (ket0 (device_wires 4))
       = marked_state (13 / 256) (- 251 / 256)"
proof -
  let ?it = "oracle_gates g @ diffusion_tape 4"
  have "concat (replicate 3 ?it) = ?it @ ?it @ ?it"
    by (simp add: eval_nat_numeral)
  then have "run (state_preparation_gates g @ concat (replicate 3 ?it)) (ket0 (device_wires 4))
      = run ?it (run ?it (run ?it (marked_state (1 / 4) (1 / 4))))"
    by (simp only: run_append prep_marked_state [OF assms])
  also have "\<dots> = marked_state (13 / 256) (- 251 / 256)"
    by (simp only: iteration_marked_state [OF assms]) simp
  finally show ?thesis .
qed

lemma prob_marked_state:
  "prob (device_wires 4) (marked_state a b) (device_wires 4) [True, False, False, True] = b\<^sup>2"
  by (simp add: prob_def device_wires_def range_py_4 marked_state_def)

lemma grover_node_cells:
  "grover_node (cell_grover_circuit ((cell_n_qubits g)\<lparr>grover_iterations := 3\<rparr>))
   = Inr (marked_state (13 / 256) (- 251 / 256))"
proof -
  let ?h = "cell_grover_circuit ((cell_n_qubits g)\<lparr>grover_iterations := 3\<rparr>)"
  let ?tape = "state_preparation_gates ?h
     @ concat (replicate 3 (oracle_gates ?h @ diffusion_tape 4))"
  have n: "n_qubits ?h = 4" and d: "grover_circuit_device ?h = device_wires 4"
    and k: "nat (grover_iterations ?h) = 3"
    by (simp_all add: cell_grover_circuit_def cell_n_qubits_def)
  have n2: "2 \<le> n_qubits ?h" using n by simp
  have t: "grover_circuit ?h = Inr ?tape"
    using grover_circuit_tape [OF n2] by (simp only: n k)
  have o: "oracle_gates ?h = oracle_gates (cell_n_qubits g)"
    by (simp add: oracle_gates_def cell_grover_circuit_def)
  have "list_all (accepts (device_wires 4)) (state_preparation_gates ?h)"
    using prep_accept [of "device_wires 4"]
    by (simp add: state_preparation_tape n device_wires_def)
  moreover have "list_all (accepts (device_wires 4)) (oracle_gates ?h)"
    using oracle_gates_accepted [of g] by (simp only: o)
  moreover have "list_all (accepts (device_wires 4)) (diffusion_tape 4)"
    by (rule diffusion_tape_accepted) simp
  ultimately have "list_all (accepts (device_wires 4)) ?tape"
    by (simp add: eval_nat_numeral)
  then show ?thesis
    by (simp only: grover_node_def t d and_then_def sum.case execute_def if_True
        three_iterations_marked_state [OF n])
qed

lemma execute_grover_steps:
  "execute_circuit (cell_device tg)
     (grover_steps R clause_list tile_qubits clause_qubits result_qubits) tile_qubits
   = Inr (prob wires (grover_state (amp_a R) (amp_b R)) tile_qubits)"
proof -
  have "list_all (\<lambda>w. w \<in> set wires) tile_qubits"
    by (simp add: wires_list tile_qubits_def)
  moreover have "tile_qubits \<noteq> []" "distinct tile_qubits"
    by (simp_all add: tile_qubits_def)
  ultimately show ?thesis
    using grover_steps_accepted [of R]
    by (simp add: execute_circuit_def cell_device_def grover_steps_tape and_then_def execute_def
        grover_steps_accepted grover_steps_state)
qed

lemma amp_a_1: "amp_a (Suc 0) = - 1 / 8"
  by (simp add: amp_a_Suc amp_0)

text \<open>
  C5: every Grover circuit of the notebooks is the state preparation, emitted once,
  followed by a fixed number of Grover iterations, each of them the oracle followed by
  the diffuser: one iteration in the two-qubit example and in the toy example,
  \<open>grover_iterations\<close> of them in the n-qubit example (from two qubits on, where the
  diffuser can be constructed), so that the tape applies oracle-then-diffuser that many
  times to the prepared state. Executing the circuit runs this tape once from the
  all-zero register and samples it: the two-qubit circuit gives 11 with probability 1,
  the four-qubit circuit of the notebook's cells gives 1001 with probability
  63001/65536 after its three iterations, and the toy circuit gives each of 0110 and
  1001 with probability 25/64 and 0000 with probability 1/64.
\<close>

theorem grover_circuits_are_pipelines:
  assumes "2 \<le> n_qubits g"
  shows "grover_circuit2
      = state_preparation_gates2 @ concat (replicate 1 (oracle_gates2 @ diffusion_gates2))
    \<and> (\<exists>\<psi>. execute (device_wires 2) grover_circuit2 = Inr \<psi>
          \<and> \<psi> = run diffusion_gates2 (run oracle_gates2
                  (run state_preparation_gates2 (ket0 (device_wires 2))))
          \<and> prob (device_wires 2) \<psi> (device_wires 2) [True, True] = 1
          \<and> prob (device_wires 2) \<psi> (device_wires 2) [False, False] = 0)
    \<and> (\<exists>dif. diffusion_gates g = Inr dif
          \<and> grover_circuit g = Inr (state_preparation_gates g
              @ concat (replicate (nat (grover_iterations g)) (oracle_gates g @ dif)))
          \<and> (\<forall>\<chi>. run (state_preparation_gates g
                        @ concat (replicate (nat (grover_iterations g)) (oracle_gates g @ dif))) \<chi>
                  = ((\<lambda>\<phi>. run dif (run (oracle_gates g) \<phi>)) ^^ nat (grover_iterations g))
                      (run (state_preparation_gates g) \<chi>)))
    \<and> (\<exists>g' \<psi>. cell_grover_iterations (cell_n_qubits g) = Inr g'
          \<and> grover_node (cell_grover_circuit g') = Inr \<psi>
          \<and> prob (device_wires 4) \<psi> (device_wires 4) [True, False, False, True]
              = 63001 / 65536)
    \<and> grover cl tq cq rq
      = and_then (init_states tq rq) (\<lambda>i.
        and_then (oracle_toy cl tq cq rq) (\<lambda>orc.
        and_then (diffuser tq) (\<lambda>dif.
          Inr (i @ concat (replicate 1 (orc @ dif))))))
    \<and> (\<exists>d. execute_circuit (cell_device tg)
              (grover clause_list tile_qubits clause_qubits result_qubits) tile_qubits = Inr d
          \<and> d [False, True, True, False] = 25 / 64
          \<and> d [True, False, False, True] = 25 / 64
          \<and> d [False, False, False, False] = 1 / 64)"
proof -
  have 1: "grover_circuit2
      = state_preparation_gates2 @ concat (replicate 1 (oracle_gates2 @ diffusion_gates2))"
    by (simp add: grover_circuit2_def)
  have s: "run grover_circuit2 (ket0 (device_wires 2)) = ket (device_wires 2) [True, True]"
    by (rule grover_circuit2_state)
  have "prob (device_wires 2) (ket (device_wires 2) [True, True]) (device_wires 2) bs
      = (if bs = [True, True] then 1 else 0)" for bs
    by (auto simp: prob_def ket_def device_wires_def range_py_2)
  then have 2: "\<exists>\<psi>. execute (device_wires 2) grover_circuit2 = Inr \<psi>
          \<and> \<psi> = run diffusion_gates2 (run oracle_gates2
                  (run state_preparation_gates2 (ket0 (device_wires 2))))
          \<and> prob (device_wires 2) \<psi> (device_wires 2) [True, True] = 1
          \<and> prob (device_wires 2) \<psi> (device_wires 2) [False, False] = 0"
    using s grover_circuit2_accepted
    by (simp add: execute_def) (simp add: grover_circuit2_def run_append)
  let ?dif = "diffusion_tape (n_qubits g)"
  have f: "run (oracle_gates g @ ?dif) = (\<lambda>\<phi>. run ?dif (run (oracle_gates g) \<phi>))"
    by (rule ext) (simp only: run_append)
  have "run (state_preparation_gates g
            @ concat (replicate (nat (grover_iterations g)) (oracle_gates g @ ?dif))) \<chi>
      = ((\<lambda>\<phi>. run ?dif (run (oracle_gates g) \<phi>)) ^^ nat (grover_iterations g))
          (run (state_preparation_gates g) \<chi>)" for \<chi>
    by (simp only: run_append run_replicate f)
  then have 3: "\<exists>dif. diffusion_gates g = Inr dif
          \<and> grover_circuit g = Inr (state_preparation_gates g
              @ concat (replicate (nat (grover_iterations g)) (oracle_gates g @ dif)))
          \<and> (\<forall>\<chi>. run (state_preparation_gates g
                        @ concat (replicate (nat (grover_iterations g)) (oracle_gates g @ dif))) \<chi>
                  = ((\<lambda>\<phi>. run dif (run (oracle_gates g) \<phi>)) ^^ nat (grover_iterations g))
                      (run (state_preparation_gates g) \<chi>))"
    using diffusion_gates_tape [OF assms] grover_circuit_tape [OF assms] by blast
  have "prob (device_wires 4) (marked_state (13 / 256) (- 251 / 256)) (device_wires 4)
          [True, False, False, True] = 63001 / 65536"
    by (simp only: prob_marked_state) (simp add: power2_eq_square)
  then have 4: "\<exists>g' \<psi>. cell_grover_iterations (cell_n_qubits g) = Inr g'
          \<and> grover_node (cell_grover_circuit g') = Inr \<psi>
          \<and> prob (device_wires 4) \<psi> (device_wires 4) [True, False, False, True]
              = 63001 / 65536"
    using grover_iterations_4 [of g] grover_node_cells [of g] by blast
  have 5: "grover cl tq cq rq
      = and_then (init_states tq rq) (\<lambda>i.
        and_then (oracle_toy cl tq cq rq) (\<lambda>orc.
        and_then (diffuser tq) (\<lambda>dif.
          Inr (i @ concat (replicate 1 (orc @ dif))))))"
    by (rule grover_pipeline)
  let ?d = "prob wires (grover_state (amp_a (Suc 0)) (amp_b (Suc 0))) tile_qubits"
  have e: "execute_circuit (cell_device tg)
      (grover clause_list tile_qubits clause_qubits result_qubits) tile_qubits = Inr ?d"
    using execute_grover_steps [of tg 1] by (simp add: grover_is_one_step)
  have "?d [False, True, True, False] = 25 / 64" "?d [True, False, False, True] = 25 / 64"
    "?d [False, False, False, False] = 1 / 64"
    by (simp_all add: prob_grover_state amp_a_1 amp_b_1 power2_eq_square)
  then have 6: "\<exists>d. execute_circuit (cell_device tg)
              (grover clause_list tile_qubits clause_qubits result_qubits) tile_qubits = Inr d
          \<and> d [False, True, True, False] = 25 / 64
          \<and> d [True, False, False, True] = 25 / 64
          \<and> d [False, False, False, False] = 1 / 64"
    using e by blast
  show ?thesis
    using 1 2 3 4 5 6 by blast
qed

theorem grover_circuits_are_pipelines_witness:
  "(2::int) \<le> 4
   \<and> (\<exists>dif. diffusion_gates
          \<lparr>n_qubits = 4, single_shot_device = device_wires 4, grover_iterations = 3,
           grover_circuit_device = device_wires 4\<rparr> = Inr dif
        \<and> grover_circuit
            \<lparr>n_qubits = 4, single_shot_device = device_wires 4, grover_iterations = 3,
             grover_circuit_device = device_wires 4\<rparr>
          = Inr (map Hadamard [0, 1, 2, 3]
                 @ concat (replicate 3
                     ([Hadamard 3, MultiControlledX None [0, 1, 2, 3] (Some ''100''), Hadamard 3]
                      @ dif))))"
proof -
  let ?g = "\<lparr>n_qubits = 4, single_shot_device = device_wires 4, grover_iterations = 3,
           grover_circuit_device = device_wires 4\<rparr>"
  have h: "2 \<le> n_qubits ?g" by simp
  obtain dif where "diffusion_gates ?g = Inr dif"
    "grover_circuit ?g = Inr (state_preparation_gates ?g
        @ concat (replicate (nat (grover_iterations ?g)) (oracle_gates ?g @ dif)))"
    using grover_circuits_are_pipelines [OF h] by blast
  then show ?thesis
    by (simp add: state_preparation_tape oracle_gates_def range_py_4)
qed

lemma grover_iterations_0:
  "cell_grover_iterations (g\<lparr>n_qubits := 0\<rparr>) = Inr (g\<lparr>n_qubits := 0, grover_iterations := 1\<rparr>)"
proof -
  have "\<lceil>pi / 4 - 1 / 2\<rceil> = 1"
    using pi_ge_3 pi_le_7_2 by (intro ceiling_unique) simp_all
  then show ?thesis
    by (simp add: cell_grover_iterations_def)
qed

lemma range_py_eq: "(range_py n = range_py m) = (n = m \<or> (n \<le> 0 \<and> m \<le> 0))"
proof
  assume "range_py n = range_py m"
  then have "length (range_py n) = length (range_py m)" by simp
  then show "n = m \<or> (n \<le> 0 \<and> m \<le> 0)"
    by (simp add: range_py_length) arith
next
  assume "n = m \<or> (n \<le> 0 \<and> m \<le> 0)"
  then show "range_py n = range_py m"
    by (auto simp: range_py_def)
qed

lemma diffusion_gates_fails: "n_qubits g < 2 \<Longrightarrow> diffusion_gates g = Inl LibraryError"
  by (auto simp: diffusion_gates_def new_MultiControlledX_def range_py_length and_then_def)

lemma diffusion_tape_eq: "(diffusion_tape n = diffusion_tape m) = (n = m)"
proof
  assume e: "diffusion_tape n = diffusion_tape m"
  then have "diffusion_tape n ! length (range_py n @ range_py n)
      = diffusion_tape m ! length (range_py n @ range_py n)"
    by simp
  moreover have "length (diffusion_tape n) = length (diffusion_tape m)"
    using e by simp
  then have "length (range_py n) = length (range_py m)"
    by (simp add: diffusion_tape_def)
  ultimately show "n = m"
    by (simp add: diffusion_tape_def nth_append)
qed simp

lemma diffusion_gates_eq:
  "(diffusion_gates g = diffusion_gates g')
   = (n_qubits g = n_qubits g' \<or> (n_qubits g < 2 \<and> n_qubits g' < 2))"
proof (cases "2 \<le> n_qubits g"; cases "2 \<le> n_qubits g'")
  assume "2 \<le> n_qubits g" "2 \<le> n_qubits g'"
  then show ?thesis
    by (simp add: diffusion_gates_tape diffusion_tape_eq)
next
  assume "2 \<le> n_qubits g" "\<not> 2 \<le> n_qubits g'"
  then show ?thesis
    by (simp add: diffusion_gates_tape diffusion_gates_fails)
next
  assume "\<not> 2 \<le> n_qubits g" "2 \<le> n_qubits g'"
  then show ?thesis
    by (simp add: diffusion_gates_tape diffusion_gates_fails)
next
  assume "\<not> 2 \<le> n_qubits g" "\<not> 2 \<le> n_qubits g'"
  then show ?thesis
    by (simp add: diffusion_gates_fails)
qed

lemma and_then_result:
  "and_then m f = Inr y \<Longrightarrow> \<exists>x. m = Inr x \<and> f x = Inr y"
  by (cases m) (simp_all add: and_then_def)

lemma py_index_member: "py_index xs i = Inr x \<Longrightarrow> x \<in> set xs"
  by (auto simp: py_index_def split: if_splits)

lemma tape_wires_append: "tape_wires (a @ b) = tape_wires a \<union> tape_wires b"
  by (simp add: tape_wires_def)

lemma tape_wires_maps:
  "tape_wires (map Hadamard qs) = set qs" "tape_wires (map PauliX qs) = set qs"
  by (induction qs) (simp_all add: tape_wires_def)

lemma new_CNOT_result: "new_CNOT ws = Inr x \<Longrightarrow> x = CNOT ws"
  by (simp add: new_CNOT_def split: if_splits)

lemma new_MultiControlledX_gate:
  "new_MultiControlledX cw ws cv = Inr x \<Longrightarrow> x = MultiControlledX cw ws cv"
  by (cases cw) (simp_all add: new_MultiControlledX_def split: if_splits)

lemma diffuser_wires: "diffuser qubits = Inr tape \<Longrightarrow> tape_wires tape \<subseteq> set qubits"
proof -
  assume a: "diffuser qubits = Inr tape"
  then obtain t t' mcx t'' where "py_index qubits (- 1) = Inr t"
    and "py_index qubits (- 1) = Inr t'"
    and "new_MultiControlledX (Some (butlast qubits)) [t'] None = Inr mcx"
    and "py_index qubits (- 1) = Inr t''"
    and "tape = map Hadamard qubits @ map PauliX qubits @ [Hadamard t, mcx, Hadamard t'']
           @ map PauliX qubits @ map Hadamard qubits"
    by (auto simp: diffuser_def Let_def for_each_single dest!: and_then_result)
  then show ?thesis
    by (auto simp: tape_wires_append tape_wires_maps tape_wires_def mcx_controls_def
        dest!: new_MultiControlledX_gate py_index_member dest: in_set_butlastD)
qed

lemma xor_wires:
  "xor input_qubits output_qubits = Inr tape \<Longrightarrow>
   tape_wires tape \<subseteq> set input_qubits \<union> set output_qubits"
  by (auto simp: xor_def tape_wires_def
      dest!: and_then_result new_CNOT_result py_index_member)

lemma clause_loop_wires:
  "clause_loop cl tq cq i = Inr tape \<Longrightarrow> tape_wires tape \<subseteq> set tq \<union> set cq"
proof (induction cl arbitrary: i tape)
  case Nil
  then show ?case by (simp add: tape_wires_def)
next
  case (Cons clause rest)
  from Cons.prems obtain j a k b c gs gs' where "py_index tq j = Inr a"
    and "py_index tq k = Inr b" and "py_index cq i = Inr c"
    and x: "xor [a, b] [c] = Inr gs" and r: "clause_loop rest tq cq (i + 1) = Inr gs'"
    and t: "tape = gs @ gs'"
    by (auto dest!: and_then_result)
  then have "a \<in> set tq" "b \<in> set tq" "c \<in> set cq"
    by (auto dest: py_index_member)
  then have "tape_wires gs \<subseteq> set tq \<union> set cq"
    using xor_wires [OF x] by auto
  then show ?case
    using Cons.IH [OF r] by (simp add: t tape_wires_append)
qed

lemma clause_circuit_wires:
  "clause_circuit cl tq cq = Inr tape \<Longrightarrow> tape_wires tape \<subseteq> set tq \<union> set cq"
  by (simp add: clause_circuit_def clause_loop_wires)

lemma oracle_toy_wires:
  "oracle_toy cl tq cq rq = Inr tape \<Longrightarrow> tape_wires tape \<subseteq> set tq \<union> set cq \<union> set rq"
proof -
  assume "oracle_toy cl tq cq rq = Inr tape"
  then obtain compute mcx undo where c: "clause_circuit cl tq cq = Inr compute"
    and m: "new_MultiControlledX (Some cq) rq None = Inr mcx"
    and u: "clause_circuit cl tq cq = Inr undo" and t: "tape = compute @ [mcx] @ undo"
    by (auto simp: oracle_toy_def dest!: and_then_result)
  have "tape_wires [mcx] \<subseteq> set cq \<union> set rq"
    using new_MultiControlledX_gate [OF m] by (simp add: tape_wires_def mcx_controls_def)
  moreover have "tape_wires tape = tape_wires compute \<union> tape_wires [mcx] \<union> tape_wires undo"
    by (simp only: t tape_wires_append Un_assoc)
  ultimately show ?thesis
    using clause_circuit_wires [OF c] clause_circuit_wires [OF u]
    by auto
qed

lemma init_states_wires:
  "init_states tq rq = Inr tape \<Longrightarrow> tape_wires tape \<subseteq> set tq \<union> set rq"
  by (auto simp: init_states_def Let_def for_each_single tape_wires_append tape_wires_maps
      tape_wires_def dest!: and_then_result py_index_member)

lemma grover_iteration_wires:
  "grover_iteration cl tq cq rq = Inr tape \<Longrightarrow>
   tape_wires tape \<subseteq> set tq \<union> set cq \<union> set rq"
proof -
  assume "grover_iteration cl tq cq rq = Inr tape"
  then obtain orc dif where "oracle_toy cl tq cq rq = Inr orc" and "diffuser tq = Inr dif"
    and "tape = orc @ dif"
    by (auto simp: grover_iteration_def dest!: and_then_result)
  then show ?thesis
    using oracle_toy_wires [of cl tq cq rq orc] diffuser_wires [of tq dif]
    by (auto simp: tape_wires_append)
qed

lemma grover_wires:
  "grover cl tq cq rq = Inr tape \<Longrightarrow> tape_wires tape \<subseteq> set tq \<union> set cq \<union> set rq"
proof -
  assume "grover cl tq cq rq = Inr tape"
  then obtain i it where "init_states tq rq = Inr i"
    and "grover_iteration cl tq cq rq = Inr it" and "tape = i @ it"
    by (auto simp: grover_def dest!: and_then_result)
  then show ?thesis
    using init_states_wires [of tq rq i] grover_iteration_wires [of cl tq cq rq it]
    by (auto simp: tape_wires_append)
qed

text \<open>
  C6, as the code has it: the n-qubit functions of the introduction notebook take no
  argument and read the module-level variable \<open>n_qubits\<close>, which another cell assigns.
  The gates they emit are determined by \<open>n_qubits\<close> and change with it: two values give
  the same state-preparation gates only if they are equal or both at most 0, the same
  oracle gates only if they are equal, and the same diffuser only if they are equal or
  both below 2, where the library refuses to construct the gate; the number of
  iterations that its cell computes is determined by \<open>n_qubits\<close> alone, and is 1 for
  \<open>n_qubits = 0\<close> and 3 for \<open>n_qubits = 4\<close>. The functions
  of the toy example take their registers as arguments, and every gate they emit acts on
  wires of those arguments only.
\<close>

theorem gates_determined_by_n_qubits:
  "(state_preparation_gates g = state_preparation_gates g')
     = (n_qubits g = n_qubits g' \<or> (n_qubits g \<le> 0 \<and> n_qubits g' \<le> 0))
   \<and> (oracle_gates g = oracle_gates g') = (n_qubits g = n_qubits g')
   \<and> (diffusion_gates g = diffusion_gates g')
     = (n_qubits g = n_qubits g' \<or> (n_qubits g < 2 \<and> n_qubits g' < 2))
   \<and> (n_qubits g = n_qubits g' \<longrightarrow>
        map_sum id grover_iterations (cell_grover_iterations g)
        = map_sum id grover_iterations (cell_grover_iterations g'))
   \<and> map_sum id grover_iterations (cell_grover_iterations (g\<lparr>n_qubits := 0\<rparr>)) = Inr 1
   \<and> map_sum id grover_iterations (cell_grover_iterations (cell_n_qubits g)) = Inr 3
   \<and> (\<forall>tape. diffuser qubits = Inr tape \<longrightarrow> tape_wires tape \<subseteq> set qubits)
   \<and> (\<forall>tape. xor input_qubits output_qubits = Inr tape \<longrightarrow>
         tape_wires tape \<subseteq> set input_qubits \<union> set output_qubits)
   \<and> (\<forall>tape. clause_circuit cl tq cq = Inr tape \<longrightarrow> tape_wires tape \<subseteq> set tq \<union> set cq)
   \<and> (\<forall>tape. oracle_toy cl tq cq rq = Inr tape \<longrightarrow>
         tape_wires tape \<subseteq> set tq \<union> set cq \<union> set rq)
   \<and> (\<forall>tape. init_states tq rq = Inr tape \<longrightarrow> tape_wires tape \<subseteq> set tq \<union> set rq)
   \<and> (\<forall>tape. grover_iteration cl tq cq rq = Inr tape \<longrightarrow>
         tape_wires tape \<subseteq> set tq \<union> set cq \<union> set rq)
   \<and> (\<forall>tape. grover cl tq cq rq = Inr tape \<longrightarrow>
         tape_wires tape \<subseteq> set tq \<union> set cq \<union> set rq)"
proof -
  have 1: "(state_preparation_gates g = state_preparation_gates g')
     = (n_qubits g = n_qubits g' \<or> (n_qubits g \<le> 0 \<and> n_qubits g' \<le> 0))"
    by (simp add: state_preparation_tape inj_map_eq_map inj_on_def range_py_eq)
  have 2: "(oracle_gates g = oracle_gates g') = (n_qubits g = n_qubits g')"
    by (simp add: oracle_gates_def)
  have 3: "(diffusion_gates g = diffusion_gates g')
     = (n_qubits g = n_qubits g' \<or> (n_qubits g < 2 \<and> n_qubits g' < 2))"
    by (rule diffusion_gates_eq)
  have 4: "n_qubits g = n_qubits g' \<longrightarrow>
        map_sum id grover_iterations (cell_grover_iterations g)
        = map_sum id grover_iterations (cell_grover_iterations g')"
    by (simp add: cell_grover_iterations_def)
  have 5: "map_sum id grover_iterations (cell_grover_iterations (g\<lparr>n_qubits := 0\<rparr>)) = Inr 1"
    by (simp add: grover_iterations_0)
  have 6: "map_sum id grover_iterations (cell_grover_iterations (cell_n_qubits g)) = Inr 3"
    by (simp add: grover_iterations_4)
  show ?thesis
    using 1 2 3 4 5 6 diffuser_wires [of qubits] xor_wires [of input_qubits output_qubits]
      clause_circuit_wires [of cl tq cq] oracle_toy_wires [of cl tq cq rq]
      init_states_wires [of tq rq] grover_iteration_wires [of cl tq cq rq]
      grover_wires [of cl tq cq rq]
    by blast
qed

theorem gates_determined_by_n_qubits_witness:
  "n_qubits \<lparr>n_qubits = 4, single_shot_device = device_wires 4, grover_iterations = 3,
             grover_circuit_device = device_wires 4\<rparr>
     = n_qubits \<lparr>n_qubits = 4, single_shot_device = device_wires 2, grover_iterations = 0,
                 grover_circuit_device = []\<rparr>
   \<and> map_sum id grover_iterations (cell_grover_iterations
        \<lparr>n_qubits = 4, single_shot_device = device_wires 4, grover_iterations = 3,
         grover_circuit_device = device_wires 4\<rparr>)
     = map_sum id grover_iterations (cell_grover_iterations
        \<lparr>n_qubits = 4, single_shot_device = device_wires 2, grover_iterations = 0,
         grover_circuit_device = []\<rparr>)
   \<and> diffuser tile_qubits = Inr diffuser_tape_toy
   \<and> tape_wires diffuser_tape_toy \<subseteq> set tile_qubits
   \<and> xor [''t_0'', ''t_1''] [''c_0''] = Inr [CNOT [''t_0'', ''c_0''], CNOT [''t_1'', ''c_0'']]
   \<and> tape_wires [CNOT [''t_0'', ''c_0''], CNOT [''t_1'', ''c_0'']]
       \<subseteq> set [''t_0'', ''t_1''] \<union> set [''c_0'']
   \<and> clause_circuit clause_list tile_qubits clause_qubits = Inr clause_tape
   \<and> tape_wires clause_tape \<subseteq> set tile_qubits \<union> set clause_qubits
   \<and> oracle_toy clause_list tile_qubits clause_qubits result_qubits = Inr oracle_tape
   \<and> tape_wires oracle_tape \<subseteq> set tile_qubits \<union> set clause_qubits \<union> set result_qubits
   \<and> init_states tile_qubits result_qubits = Inr init_tape
   \<and> tape_wires init_tape \<subseteq> set tile_qubits \<union> set result_qubits
   \<and> grover_iteration clause_list tile_qubits clause_qubits result_qubits = Inr iteration_tape
   \<and> tape_wires iteration_tape \<subseteq> set tile_qubits \<union> set clause_qubits \<union> set result_qubits
   \<and> grover clause_list tile_qubits clause_qubits result_qubits
       = Inr (init_tape @ iteration_tape)
   \<and> tape_wires (init_tape @ iteration_tape)
       \<subseteq> set tile_qubits \<union> set clause_qubits \<union> set result_qubits"
proof -
  let ?g = "\<lparr>n_qubits = 4, single_shot_device = device_wires 4, grover_iterations = 3,
             grover_circuit_device = device_wires 4\<rparr>"
  let ?g' = "\<lparr>n_qubits = 4, single_shot_device = device_wires 2, grover_iterations = 0,
                 grover_circuit_device = []\<rparr>"
  note t = gates_determined_by_n_qubits [of ?g ?g' tile_qubits "[''t_0'', ''t_1'']" "[''c_0'']"
      clause_list tile_qubits clause_qubits result_qubits]
  have n: "n_qubits ?g = n_qubits ?g'" by simp
  have d: "diffuser tile_qubits = Inr diffuser_tape_toy"
    using diffuser_tape [of tile_qubits] by (simp add: diffuser_tape_toy_def tile_qubits_def)
  have x: "xor [''t_0'', ''t_1''] [''c_0''] = Inr [CNOT [''t_0'', ''c_0''], CNOT [''t_1'', ''c_0'']]"
    by (simp add: xor_def py_index_def new_CNOT_def and_then_def)
  have o: "oracle_toy clause_list tile_qubits clause_qubits result_qubits = Inr oracle_tape"
    by (simp add: oracle_toy_tape oracle_tape_def)
  have g: "grover clause_list tile_qubits clause_qubits result_qubits
       = Inr (init_tape @ iteration_tape)"
    by (simp add: grover_def init_states_tape grover_iteration_tape and_then_def)
  show ?thesis
    using t n d x o g clause_circuit_tape init_states_tape grover_iteration_tape
    by (intro conjI) blast+
qed

theorem gates_read_n_qubits_counterexample:
  "state_preparation_gates
     \<lparr>n_qubits = 4, single_shot_device = device_wires 4, grover_iterations = 3,
      grover_circuit_device = device_wires 4\<rparr>
   \<noteq> state_preparation_gates
     \<lparr>n_qubits = 2, single_shot_device = device_wires 4, grover_iterations = 3,
      grover_circuit_device = device_wires 4\<rparr>"
  by (simp add: state_preparation_gates_def range_py_4 range_py_2)

section \<open>Failures\<close>


















end
